theory Spec2Isabelle
  imports Main "HOL-Library.Monad_Syntax" "HOL-Library.Sublist"
begin

section \<open>Integer conventions of the embedding\<close>

text \<open>
  The driver computes with \<open>u8\<close>, \<open>u16\<close>, \<open>u32\<close> and \<open>int\<close>. Every value is an
  \<open>int\<close> here. C promotes \<open>u8\<close> and \<open>u16\<close> operands to \<open>int\<close> before it
  computes, so expressions are evaluated on \<open>int\<close>, and a store into a narrower
  variable truncates: the casts below are written at every such store. An \<open>int\<close>
  result that does not fit into 32 bits wraps (the kernel is compiled with
  \<open>-fno-strict-overflow\<close>): \<open>s32\<close> is that wrap. It is written out in \<open>nv12_eff\<close>
  and at the efficiency of \<open>tiler_best2pack\<close>, where the product of two 16-bit values
  and a constant can exceed 32 bits before it is divided.
\<close>

definition u8 :: "int \<Rightarrow> int" where
  "u8 x = x mod 256"

definition u16 :: "int \<Rightarrow> int" where
  "u16 x = x mod 65536"

definition u32 :: "int \<Rightarrow> int" where
  "u32 x = x mod 4294967296"

definition s32 :: "int \<Rightarrow> int" where
  "s32 x = (x + 2147483648) mod 4294967296 - 2147483648"

text \<open>
  Modelled from the spec: the macro \<open>ALIGN\<close> of \<open>linux/kernel.h\<close>, which is not among
  the sources. The spec reads it as rounding up to the alignment ("block width rounded
  up to its alignment", "the block extent rounded up to the band").
\<close>

definition ALIGN :: "int \<Rightarrow> int \<Rightarrow> int" where
  "ALIGN x a = ((x + a - 1) div a) * a"

text \<open>
  Modelled from the spec: \<open>DIV_ROUND_UP\<close> of \<open>linux/kernel.h\<close>, the number of areas of
  \<open>d\<close> blocks needed for \<open>n\<close> blocks. Its operands are never negative here.
\<close>

definition DIV_ROUND_UP :: "int \<Rightarrow> int \<Rightarrow> int" where
  "DIV_ROUND_UP n d = (n + d - 1) div d"

text \<open>C's \<open>/\<close> on \<open>int\<close> truncates towards zero; HOL's \<open>div\<close> rounds down.\<close>

definition c_div :: "int \<Rightarrow> int \<Rightarrow> int" where
  "c_div x y = sgn x * sgn y * (\<bar>x\<bar> div \<bar>y\<bar>)"

text \<open>
  The file-level statics \<open>band_8\<close> and \<open>band_16\<close>, the fields \<open>ops->width\<close> and
  \<open>ops->height\<close> of the container, and \<open>PAGE_SIZE\<close>. The bands are set once, by
  \<open>tiler_reserve_init\<close>, from \<open>PAGE_SIZE\<close> and the slot geometry, and are not zero.
  The container is far narrower than \<open>2^31\<close> slots.
\<close>

record tiler_cfg =
  band_8 :: int
  band_16 :: int
  ops_width :: int
  ops_height :: int
  PAGE_SIZE :: int

datatype fault = DivisionByZero

section \<open>nv12_eff\<close>

text \<open>
  \<open>nv12_eff(n, w, area, n_need)\<close>: the expression is evaluated on 32-bit \<open>int\<close> and
  returned as \<open>u32\<close>. It divides by \<open>n\<close> (inside \<open>DIV_ROUND_UP\<close>) and by \<open>area\<close>.
  Both products can exceed 32 bits for 16-bit arguments; the second one is divided
  after it has wrapped.
\<close>

definition nv12_eff :: "int \<Rightarrow> int \<Rightarrow> int \<Rightarrow> int \<Rightarrow> fault + int" where
  "nv12_eff n w area n_need =
     (if n = 0 \<or> area = 0 then Inl DivisionByZero
      else Inr (u32 (s32 (s32 (268435456 - s32 (s32 (DIV_ROUND_UP n_need n * area) * 32))
                          + c_div (s32 (s32 (1024 * n) * ((w * 3 + 1) div 2))) area))))"

section \<open>tiler_best2pack\<close>

text \<open>
  The loop of \<open>tiler_best2pack\<close>. \<open>W\<close> is \<open>ops->width\<close>; the loop state is
  \<open>m\<close>, \<open>best_eff\<close>, the out-parameters \<open>*n\<close> and \<open>*area\<close>, and \<open>ar\<close>.
  \<open>m < max_n \<le> 65535\<close>, so \<open>m++\<close> does not wrap. When \<open>area\<close> is \<open>NULL\<close> the
  last component is stored nowhere and its caller drops it. The efficiency
  \<open>m * w * 1024 / ar\<close> is computed on 32-bit \<open>int\<close>, where the product can wrap, and
  stored into the \<open>u32\<close> \<open>eff\<close>; its divisor \<open>ar\<close> is a \<open>u16\<close> and is zero when an
  area width has wrapped to zero in 16 bits: the division then faults. In
  \<open>o + m * e + w\<close> the blocks before \<open>m\<close> have passed the test against the container
  width, which keeps the sum within 32 bits (\<open>best2pack_sum_fits\<close>).
\<close>

function best2pack_loop ::
  "int \<Rightarrow> int \<Rightarrow> int \<Rightarrow> int \<Rightarrow> int \<Rightarrow> int \<Rightarrow> int \<Rightarrow> int \<Rightarrow> int \<Rightarrow> int \<Rightarrow> int \<Rightarrow> int
     \<Rightarrow> fault + int \<times> int \<times> int" where
  "best2pack_loop W o' w e b max_n stride m best_eff n area ar =
     (if m < max_n \<and> o' + m * e + w \<le> W \<and> stride = ALIGN (ar - o' - m * e) b then
        (if ar = 0 then Inl DivisionByZero
         else
           (let m1 = m + 1;
                eff = u32 (c_div (s32 (s32 (m1 * w) * 1024)) ar);
                ar1 = u16 (ALIGN (o' + m1 * e + w) b)
            in if eff > best_eff
               then best2pack_loop W o' w e b max_n stride m1 eff m1 ar ar1
               else best2pack_loop W o' w e b max_n stride m1 best_eff n area ar1))
      else Inr (best_eff, n, area))"
  by pat_completeness auto
termination
  by (relation "measure (\<lambda>(W, o', w, e, b, max_n, stride, m, best_eff, n, area, ar).
        nat (max_n - m))") auto

declare best2pack_loop.simps [simp del]

text \<open>
  \<open>tiler_best2pack(o, w, e, b, &n, area)\<close> returns the efficiency and leaves the
  count and the area width in \<open>*n\<close> and \<open>*area\<close>: the result is
  \<open>Inr (best_eff, *n, *area)\<close>, or \<open>Inl\<close> the fault of the division.
\<close>

definition tiler_best2pack ::
  "tiler_cfg \<Rightarrow> int \<Rightarrow> int \<Rightarrow> int \<Rightarrow> int \<Rightarrow> int \<Rightarrow> int \<Rightarrow> fault + int \<times> int \<times> int" where
  "tiler_best2pack c o' w e b n area =
     (let stride = u16 (ALIGN (o' + w) b)
      in best2pack_loop (ops_width c) o' w e b n stride 0 0 n area stride)"

section \<open>nv12_separate\<close>

text \<open>
  The two scans share \<open>n\<close> and \<open>*area\<close>; their return values are dropped. The
  arguments are stored into \<open>u16\<close> parameters. The result is \<open>Inr (n, *area)\<close>, or
  the fault of a scan.
\<close>

definition nv12_separate ::
  "tiler_cfg \<Rightarrow> int \<Rightarrow> int \<Rightarrow> int \<Rightarrow> int \<Rightarrow> int \<Rightarrow> fault + int \<times> int" where
  "nv12_separate c o' w a n area =
     (case tiler_best2pack c o' w (u16 (ALIGN w a)) (u16 (band_8 c)) n area of
        Inl f \<Rightarrow> Inl f
      | Inr (eff1, n1, area1) \<Rightarrow>
          (case tiler_best2pack c (o' div 2) ((w + 1) div 2) (u16 (ALIGN w a div 2))
                  (u16 (band_16 c)) n1 area1 of
             Inl f \<Rightarrow> Inl f
           | Inr (eff2, n2, area2) \<Rightarrow> Inr (n2, u16 (area2 * 3))))"

section \<open>The pattern generators\<close>

text \<open>
  A generator \<open>nv12_X(o, w, a, &area, n, p)\<close> returns the number of pairs, stores
  the area size in \<open>*area\<close> and writes the pairs through the \<open>u8\<close> pointer \<open>p\<close>:
  the result here is \<open>(count, *area, bytes written)\<close>. The buffer is written from
  its start, two bytes a pair. The divisors \<open>a\<close>, \<open>band_8\<close> and \<open>e\<close> are not zero
  under the assumptions the source states (\<open>w > 0\<close>, \<open>o < a\<close>, \<open>2 \<le> a\<close>), for a
  width whose alignment fits into 16 bits.
\<close>

subsection \<open>nv12_A\<close>

text \<open>The inner loop "pack until upper bound"; \<open>m < n \<le> 65535\<close>, so \<open>m++\<close> does not wrap.\<close>

function nv12_A_inner ::
  "int \<Rightarrow> int \<Rightarrow> int \<Rightarrow> int \<Rightarrow> int \<Rightarrow> int \<Rightarrow> int \<Rightarrow> int \<Rightarrow> int \<Rightarrow> int list
     \<Rightarrow> int \<times> int \<times> int \<times> int list" where
  "nv12_A_inner o' w a area n u x l m p =
     (if x + w \<le> u \<and> m < n
      then nv12_A_inner o' w a area n u
             (u16 (ALIGN (x + w - o') a + o')) (u16 ((area + x + w + 1) div 2)) (m + 1)
             (p @ [u8 x, u8 l])
      else (x, l, m, p))"
  by pat_completeness auto
termination
  by (relation "measure (\<lambda>(o', w, a, area, n, u, x, l, m, p). nat (n - m))") auto

declare nv12_A_inner.simps [simp del]

text \<open>
  The outer loop. It need not end for every input (with \<open>a = 0\<close> the lower bound
  never moves), so not returning is the value \<open>None\<close>.
\<close>

partial_function (option) nv12_A_outer ::
  "int \<Rightarrow> int \<Rightarrow> int \<Rightarrow> int \<Rightarrow> int \<Rightarrow> int \<Rightarrow> int \<Rightarrow> int list \<Rightarrow> (int \<times> int list) option" where
  "nv12_A_outer o' w a area n x m p =
     (if x + w < area \<and> m < n then
        (case nv12_A_inner o' w a area n (u16 ((area + x) div 2)) x (u16 ((area + x) div 2)) m p of
           (x1, l1, m1, p1) \<Rightarrow> nv12_A_outer o' w a area n (u16 (ALIGN (l1 - o') a + o')) m1 p1)
      else Some (m, p))"

definition nv12_A ::
  "tiler_cfg \<Rightarrow> int \<Rightarrow> int \<Rightarrow> int \<Rightarrow> int \<Rightarrow> (int \<times> int \<times> int list) option" where
  "nv12_A c o' w a n =
     (case nv12_A_outer o' w a (u16 (band_8 c)) n o' 0 [] of
        None \<Rightarrow> None
      | Some (m, p) \<Rightarrow> Some (m, u16 (band_8 c), p))"

subsection \<open>nv12_revA\<close>

text \<open>The reversing loop visits the \<open>n\<close> pairs that \<open>nv12_A\<close> has written.\<close>

fun reverse_packing :: "int \<Rightarrow> int \<Rightarrow> int list \<Rightarrow> int list" where
  "reverse_packing area w (x # l # p) =
     u8 (area - x - w) # u8 (area - l - ((w + 1) div 2)) # reverse_packing area w p"
| "reverse_packing area w p = p"

definition nv12_revA ::
  "tiler_cfg \<Rightarrow> int \<Rightarrow> int \<Rightarrow> int \<Rightarrow> int \<Rightarrow> (int \<times> int \<times> int list) option" where
  "nv12_revA c o' w a n =
     (case nv12_A c (u16 ((a - (o' + w) mod a) mod a)) w a n of
        None \<Rightarrow> None
      | Some (n1, area, p) \<Rightarrow> Some (n1, area, reverse_packing area w p))"

subsection \<open>nv12_B\<close>

function nv12_B_loop ::
  "int \<Rightarrow> int \<Rightarrow> int \<Rightarrow> int \<Rightarrow> int \<Rightarrow> int \<Rightarrow> int list \<Rightarrow> int \<times> int list" where
  "nv12_B_loop w a area n o' m p =
     (if o' + w \<le> area \<and> m < n
      then nv12_B_loop w a area n (u16 (o' + a)) (m + 1) (p @ [u8 o', u8 (o' div 2)])
      else (m, p))"
  by pat_completeness auto
termination
  by (relation "measure (\<lambda>(w, a, area, n, o', m, p). nat (n - m))") auto

declare nv12_B_loop.simps [simp del]

definition nv12_B :: "tiler_cfg \<Rightarrow> int \<Rightarrow> int \<Rightarrow> int \<Rightarrow> int \<Rightarrow> int \<times> int \<times> int list" where
  "nv12_B c o' w a n =
     (let e = u16 ((o' + w) mod a);
          o1 = u16 ((o' div 2) mod a);
          e1 = u16 (((o' + w + 1) div 2) mod a);
          o2 = u16 (o1 + a div 4);
          e2 = u16 (e1 + a div 4);
          area = u16 (band_8 c)
      in if w < a \<and> o' < e \<and> e1 \<le> o' \<and> (e2 \<le> o' \<or> o2 \<ge> e)
         then (case nv12_B_loop w a area n o' 0 [] of (m, p) \<Rightarrow> (m, area, p))
         else (0, area, []))"

subsection \<open>nv12_C\<close>

text \<open>
  \<open>m\<close> is an \<open>int\<close> and \<open>i < m\<close>, so \<open>i++\<close> is taken exactly; \<open>j\<close> is a \<open>u16\<close>
  that is incremented once by \<open>++j\<close> and once more by the loop header.
\<close>

function nv12_C_loop ::
  "int \<Rightarrow> int \<Rightarrow> int \<Rightarrow> int \<Rightarrow> int \<Rightarrow> int \<Rightarrow> int \<Rightarrow> int \<Rightarrow> int \<Rightarrow> int list \<Rightarrow> int \<times> int list" where
  "nv12_C_loop o' w e area o2 m n i j p =
     (if i < m \<and> j < n then
        (let p1 = p @ [u8 (o' + i * e), u8 ((o' + i * e + area) div 2)];
             j1 = u16 (j + 1);
             p2 = (if j1 < n then p1 @ [u8 (o2 - i * e - w), u8 ((o2 - i * e - w) div 2)] else p1)
         in nv12_C_loop o' w e area o2 m n (i + 1) (u16 (j1 + 1)) p2)
      else (j, p))"
  by pat_completeness auto
termination
  by (relation "measure (\<lambda>(o', w, e, area, o2, m, n, i, j, p). nat (m - i))") auto

declare nv12_C_loop.simps [simp del]

definition nv12_C :: "tiler_cfg \<Rightarrow> int \<Rightarrow> int \<Rightarrow> int \<Rightarrow> int \<Rightarrow> int \<times> int \<times> int list" where
  "nv12_C c o' w a n =
     (let e = u16 (ALIGN w a);
          area = u16 (band_8 c);
          o2 = u16 (area - (a - (o' + w) mod a) mod a);
          m = c_div (c_div (min (o2 - 2 * o') (2 * o2 - o' - area)) 3 - w) e + 1
      in case nv12_C_loop o' w e area o2 m n 0 0 [] of (j, p) \<Rightarrow> (j, area, p))"

subsection \<open>nv12_D\<close>

text \<open>The sweep over \<open>d\<close> need not end for every input (\<open>a = 0\<close>): \<open>None\<close> is not returning.\<close>

partial_function (option) nv12_D_loop ::
  "tiler_cfg \<Rightarrow> int \<Rightarrow> int \<Rightarrow> int \<Rightarrow> int \<Rightarrow> int \<Rightarrow> int \<Rightarrow> (int \<times> int list) option" where
  "nv12_D_loop c o' w a area n d =
     (if n > 0 \<and> d + o' + w \<le> area then
        (if u16 (((o' + d) mod band_8 c) div 2) + u16 ((w + 1) div 2) \<le> o' + d
         then Some (1, [u8 (o' + d), u8 (u16 (((o' + d) mod band_8 c) div 2))])
         else if u16 (u16 (((o' + d) mod band_8 c) div 2)
                      + ALIGN (d + o' + w - u16 (((o' + d) mod band_8 c) div 2)) (band_16 c))
                 + u16 ((w + 1) div 2) \<le> area
         then Some (1, [u8 o',
                        u8 (u16 (u16 (((o' + d) mod band_8 c) div 2)
                          + ALIGN (d + o' + w - u16 (((o' + d) mod band_8 c) div 2)) (band_16 c)))])
         else nv12_D_loop c o' w a area n (u16 (d + a)))
      else Some (0, []))"

definition nv12_D ::
  "tiler_cfg \<Rightarrow> int \<Rightarrow> int \<Rightarrow> int \<Rightarrow> int \<Rightarrow> (int \<times> int \<times> int list) option" where
  "nv12_D c o' w a n =
     (case nv12_D_loop c o' w a (u16 (ALIGN (o' + w) (band_8 c))) n 0 of
        None \<Rightarrow> None
      | Some (m, p) \<Rightarrow> Some (m, u16 (ALIGN (o' + w) (band_8 c)), p))"

section \<open>nv12_together\<close>

text \<open>
  The selection state: \<open>n_best\<close>, \<open>*area\<close>, and \<open>p_best\<close>, which is \<open>NULL\<close>
  (\<open>None\<close>) or points at the buffer of a generator or into the table of special
  packings (\<open>Some\<close> of the bytes found there, with the buffer named in \<open>p_src\<close>).
  \<open>called\<close> records which generators have run, in order.
\<close>

datatype generator = GEN_A | GEN_revA | GEN_B | GEN_C | GEN_D

datatype pack_src = PACK generator | PACK_special | PACK_NULL

record selection =
  n_best :: int
  sel_area :: int
  p_best :: "int list option"
  p_src :: pack_src
  called :: "generator list"

text \<open>
  One of the three blocks \<open>if (n_best < n) { n2 = nv12_X(...); if (n2 > n_best) ... }\<close>.
  The generator has stored its area size whether or not it wins; \<open>n2\<close> is a \<open>u16\<close>.
\<close>

definition try_generator ::
  "int \<Rightarrow> generator \<Rightarrow> (int \<times> int \<times> int list) option \<Rightarrow> selection
     \<Rightarrow> selection option" where
  "try_generator n g result s =
     (if n_best s < n then
        (case result of
           None \<Rightarrow> None
         | Some (n2, area, p) \<Rightarrow>
             Some (if u16 n2 > n_best s
                   then s\<lparr>n_best := u16 n2, sel_area := area, p_best := Some p, p_src := PACK g,
                          called := called s @ [g]\<rparr>
                   else s\<lparr>sel_area := area, called := called s @ [g]\<rparr>))
      else Some s)"

text \<open>The local array \<open>packings\<close>, with its terminating zero; \<open>p_end\<close> is its last index.\<close>

definition packings :: "int list" where
  "packings =
     [9, 2, 4, 4, 64,
        2, 33, 6, 35, 10, 37, 14, 39, 18, 41,
        46, 23, 50, 25, 54, 27, 58, 29,
      3, 0, 12, 4, 64,
        0, 32, 12, 38, 48, 24,
      0]"

definition p_end :: nat where
  "p_end = length packings - 1"

text \<open>
  "traverse any special packings": \<open>p\<close> is the cursor into \<open>packings\<close>. On this table
  the cursor stays inside the array (it takes the values 0, 23 and 34 only), which the
  first test of the guard records.
\<close>

function special_packings :: "int \<Rightarrow> int \<Rightarrow> int \<Rightarrow> int \<Rightarrow> nat \<Rightarrow> selection \<Rightarrow> selection" where
  "special_packings o' w a n p s =
     (if p < length packings \<and> packings ! p \<noteq> 0 then
        (if packings ! p < n_best s
         then special_packings o' w a n p_end s
         else if packings ! (p + 3) \<ge> a \<and>
                 o' + w + ALIGN (packings ! (p + 1) - o') a \<le> packings ! (p + 1) + packings ! (p + 2)
         then s\<lparr>n_best := min (packings ! p) n, sel_area := packings ! (p + 4),
                p_best := Some (drop (p + 5) packings), p_src := PACK_special\<rparr>
         else special_packings o' w a n (p + 4 + (1 + nat (packings ! p) * 2)) s)
      else s)"
  by pat_completeness auto
termination
proof (relation "measure (\<lambda>(o', w, a, n, p, s). length packings - p)")
  show "wf (measure (\<lambda>(o', w, a, n, p, s). length packings - p))" by simp
next
  fix o' w a n :: int and p :: nat and s :: selection
  assume "p < length packings \<and> packings ! p \<noteq> 0"
  then have "p \<noteq> 34" "p < 35" by (auto simp: packings_def)
  then show "((o', w, a, n, p_end, s), (o', w, a, n, p, s))
        \<in> measure (\<lambda>(o', w, a, n, p, s). length packings - p)"
    by (simp add: p_end_def packings_def)
next
  fix o' w a n :: int and p :: nat and s :: selection
  assume "p < length packings \<and> packings ! p \<noteq> 0"
  then have "length packings - (p + 4 + (1 + nat (packings ! p) * 2)) < length packings - p"
    by arith
  then show "((o', w, a, n, p + 4 + (1 + nat (packings ! p) * 2), s), (o', w, a, n, p, s))
        \<in> measure (\<lambda>(o', w, a, n, p, s). length packings - p)"
    by simp
qed

declare special_packings.simps [simp del]

text \<open>The generators A, reverse-A, B and C, in the order of the source.\<close>

definition try_generators :: "tiler_cfg \<Rightarrow> int \<Rightarrow> int \<Rightarrow> int \<Rightarrow> int \<Rightarrow> selection option" where
  "try_generators c o' w a n =
     (case nv12_A c o' w a n of
        None \<Rightarrow> None
      | Some (nA, area, pack_A) \<Rightarrow>
          do {
            s1 \<leftarrow> try_generator n GEN_revA (nv12_revA c o' w a n)
                    \<lparr>n_best = u16 nA, sel_area = area, p_best = Some pack_A, p_src = PACK GEN_A,
                     called = [GEN_A]\<rparr>;
            s2 \<leftarrow> try_generator n GEN_B (Some (nv12_B c o' w a n)) s1;
            try_generator n GEN_C (Some (nv12_C c o' w a n)) s2
          })"

text \<open>"if (!n_best)": generator D, after which \<open>p_best\<close> is \<open>NULL\<close>.\<close>

definition try_D :: "tiler_cfg \<Rightarrow> int \<Rightarrow> int \<Rightarrow> int \<Rightarrow> int \<Rightarrow> selection \<Rightarrow> selection option" where
  "try_D c o' w a n s =
     (if n_best s = 0 then
        (case nv12_D c o' w a n of
           None \<Rightarrow> None
         | Some (nD, area, pack_D) \<Rightarrow>
             Some (s\<lparr>n_best := u16 nD, sel_area := area, p_best := None, p_src := PACK_NULL,
                     called := called s @ [GEN_D]\<rparr>))
      else Some s)"

text \<open>
  The result of \<open>nv12_together\<close>: the count returned, \<open>*area\<close>, and what \<open>memcpy\<close>
  has copied into the caller's \<open>packing\<close> (\<open>None\<close> when it was not called). When
  \<open>p_best\<close> holds fewer than \<open>2 * n_best\<close> written bytes, \<open>memcpy\<close> reads on into
  bytes of the local buffer that were never written; those are left out.
\<close>

record together_result =
  t_count :: int
  t_area :: int
  t_copied :: "int list option"
  t_src :: pack_src
  t_called :: "generator list"

definition nv12_together ::
  "tiler_cfg \<Rightarrow> int \<Rightarrow> int \<Rightarrow> int \<Rightarrow> int \<Rightarrow> together_result option" where
  "nv12_together c o' w a n =
     do {
       s3 \<leftarrow> try_generators c o' w a n;
       s5 \<leftarrow> try_D c o' w a n (special_packings o' w a n 0 s3);
       Some \<lparr>t_count = n_best s5, t_area = sel_area s5,
             t_copied = (case p_best s5 of
                           None \<Rightarrow> None
                         | Some bytes \<Rightarrow>
                             if n_best s5 \<noteq> 0 then Some (take (nat (n_best s5 * 2)) bytes)
                             else None),
             t_src = p_src s5, t_called = called s5\<rparr>
     }"

section \<open>The collaborators and the state they act on\<close>

text \<open>
  Modelled from the spec: \<open>enum tiler_fmt\<close> is declared in \<open>tiler.h\<close>, which is not
  among the sources. The supported pixel formats are the 8-bit, 16-bit and 32-bit
  ones, taken here as consecutive enumerators.
\<close>

definition TILFMT_8BIT :: int where
  "TILFMT_8BIT = 0"

definition TILFMT_16BIT :: int where
  "TILFMT_16BIT = 1"

definition TILFMT_32BIT :: int where
  "TILFMT_32BIT = 2"

text \<open>
  The operations behind \<open>ops\<close>, as parameters. \<open>'s\<close> is the state of the external
  allocator, \<open>'r\<close> the type of the area handles it links into a list.
  \<^item> \<open>geom fmt\<close> is \<open>(slot_w, bpp)\<close>;
  \<^item> \<open>analize fmt width height a o\<close> is \<open>None\<close> for a non-zero return and
    otherwise the values left in \<open>w\<close>, \<open>h\<close>, \<open>band\<close>, \<open>a\<close>, \<open>o\<close>;
  \<^item> \<open>get_gi gid\<close> tells whether a group context is returned;
  \<^item> \<open>lay_2d\<close> and \<open>lay_nv12\<close> return the \<open>s32\<close> result, the areas they have
    linked into the list they were given, and the next allocator state;
  \<^item> \<open>release\<close> and \<open>add_reserved\<close> act on the allocator state.
\<close>

record ('s, 'r) tiler_ops =
  geom :: "int \<Rightarrow> int \<times> int"
  analize :: "int \<Rightarrow> int \<Rightarrow> int \<Rightarrow> int \<Rightarrow> int \<Rightarrow> (int \<times> int \<times> int \<times> int \<times> int) option"
  get_gi :: "int \<Rightarrow> bool"
  lay_2d :: "'s \<Rightarrow> int \<Rightarrow> int \<Rightarrow> int \<Rightarrow> int \<Rightarrow> int \<Rightarrow> int \<Rightarrow> int \<Rightarrow> int \<times> 'r list \<times> 's"
  lay_nv12 :: "'s \<Rightarrow> int \<Rightarrow> int \<Rightarrow> int \<Rightarrow> int \<Rightarrow> int list \<Rightarrow> int \<times> 'r list \<times> 's"
  release :: "'s \<Rightarrow> 'r list \<Rightarrow> 's"
  add_reserved :: "'s \<Rightarrow> 'r list \<Rightarrow> 's"

datatype 'r event =
    E_geom int
  | E_analize int int int
  | E_get_gi int
  | E_lay_2d int int int int int int int
  | E_lay_nv12 int int int int "int list"
  | E_release "'r list"
  | E_add_reserved "'r list"
  | E_release_gi

text \<open>
  What a call of the driver acts on: the allocator, the local list \<open>reserved\<close>, the
  group's list \<open>gi->reserved\<close>, the areas handed to \<open>release\<close> so far, and the
  collaborator calls made so far.
\<close>

record ('s, 'r) world =
  alloc :: 's
  reserved :: "'r list"
  gi_reserved :: "'r list"
  released :: "'r list"
  trace :: "'r event list"

definition logged :: "'r event \<Rightarrow> ('s, 'r) world \<Rightarrow> ('s, 'r) world" where
  "logged ev wd = wd\<lparr>trace := trace wd @ [ev]\<rparr>"

text \<open>\<open>ops->lay_2d(fmt, n, w, h, band, a, o, gi, &reserved)\<close>, into the local list.\<close>

definition lay_2d_local ::
  "('s, 'r) tiler_ops \<Rightarrow> int \<Rightarrow> int \<Rightarrow> int \<Rightarrow> int \<Rightarrow> int \<Rightarrow> int \<Rightarrow> int \<Rightarrow> ('s, 'r) world
     \<Rightarrow> int \<times> ('s, 'r) world" where
  "lay_2d_local ops fmt n w h band a o' wd =
     (case lay_2d ops (alloc wd) fmt n w h band a o' of
        (res, areas, s) \<Rightarrow>
          (res, wd\<lparr>alloc := s, reserved := reserved wd @ areas,
                   trace := trace wd @ [E_lay_2d fmt n w h band a o']\<rparr>))"

text \<open>\<open>ops->lay_2d(fmt, n, w, h, band, a, o, gi, &gi->reserved)\<close>, into the group's list.\<close>

definition lay_2d_group ::
  "('s, 'r) tiler_ops \<Rightarrow> int \<Rightarrow> int \<Rightarrow> int \<Rightarrow> int \<Rightarrow> int \<Rightarrow> int \<Rightarrow> int \<Rightarrow> ('s, 'r) world
     \<Rightarrow> int \<times> ('s, 'r) world" where
  "lay_2d_group ops fmt n w h band a o' wd =
     (case lay_2d ops (alloc wd) fmt n w h band a o' of
        (res, areas, s) \<Rightarrow>
          (res, wd\<lparr>alloc := s, gi_reserved := gi_reserved wd @ areas,
                   trace := trace wd @ [E_lay_2d fmt n w h band a o']\<rparr>))"

text \<open>\<open>ops->lay_nv12(n, area, w, h, gi, packing)\<close> reserves for the group.\<close>

definition lay_nv12_group ::
  "('s, 'r) tiler_ops \<Rightarrow> int \<Rightarrow> int \<Rightarrow> int \<Rightarrow> int \<Rightarrow> int list \<Rightarrow> ('s, 'r) world
     \<Rightarrow> int \<times> ('s, 'r) world" where
  "lay_nv12_group ops n area w h packing wd =
     (case lay_nv12 ops (alloc wd) n area w h packing of
        (res, areas, s) \<Rightarrow>
          (res, wd\<lparr>alloc := s, gi_reserved := gi_reserved wd @ areas,
                   trace := trace wd @ [E_lay_nv12 n area w h packing]\<rparr>))"

text \<open>
  Modelled from the spec: \<open>release(list)\<close> releases the reservations of the list and
  \<open>add_reserved(list, gi)\<close> merges the list into the permanent list of the group
  context; both leave the list empty.
\<close>

definition release_local :: "('s, 'r) tiler_ops \<Rightarrow> ('s, 'r) world \<Rightarrow> ('s, 'r) world" where
  "release_local ops wd =
     wd\<lparr>alloc := release ops (alloc wd) (reserved wd),
        released := released wd @ reserved wd,
        reserved := [],
        trace := trace wd @ [E_release (reserved wd)]\<rparr>"

definition add_reserved_local :: "('s, 'r) tiler_ops \<Rightarrow> ('s, 'r) world \<Rightarrow> ('s, 'r) world" where
  "add_reserved_local ops wd =
     wd\<lparr>alloc := add_reserved ops (alloc wd) (reserved wd),
        gi_reserved := gi_reserved wd @ reserved wd,
        reserved := [],
        trace := trace wd @ [E_add_reserved (reserved wd)]\<rparr>"

section \<open>reserve_nv12\<close>

text \<open>
  "reserve blocks separately into a temporary list, so that we can free them if
  unsuccessful": the statements from the first \<open>lay_2d\<close> to \<open>add_reserved\<close>. The
  result is \<open>res\<close> and the state after them.
\<close>

definition reserve_separately ::
  "('s, 'r) tiler_ops \<Rightarrow> int \<Rightarrow> int \<Rightarrow> int \<Rightarrow> int \<Rightarrow> int \<Rightarrow> int \<Rightarrow> ('s, 'r) world
     \<Rightarrow> int \<times> ('s, 'r) world" where
  "reserve_separately ops n_s w h band a o' wd =
     (case lay_2d_local ops TILFMT_8BIT n_s w h band a o' wd of
        (res, wd1) \<Rightarrow>
          (case (if res < 0 then (res, wd1)
                 else lay_2d_local ops TILFMT_16BIT n_s ((w + 1) div 2) h (band div 2)
                        (a div 2) (o' div 2) wd1) of
             (res2, wd2) \<Rightarrow>
               if res2 < 0 \<or> res \<noteq> res2 then (- 1, release_local ops wd2)
               else (res, add_reserved_local ops wd2)))"

text \<open>
  \<open>n_t\<close>, \<open>area_t\<close> and the buffer \<open>packing\<close> after
  "n_t = can_together ? nv12_together(...) : 0".
\<close>

definition plan_together ::
  "tiler_cfg \<Rightarrow> int \<Rightarrow> int \<Rightarrow> int \<Rightarrow> int \<Rightarrow> bool \<Rightarrow> int \<Rightarrow> int list
     \<Rightarrow> (int \<times> int \<times> int list) option" where
  "plan_together c o' w a n can_together area_t packing =
     (if can_together then
        (case nv12_together c o' w a n of
           None \<Rightarrow> None
         | Some r \<Rightarrow>
             Some (t_count r, t_area r,
                   (case t_copied r of
                      None \<Rightarrow> packing
                    | Some bytes \<Rightarrow> bytes @ drop (length bytes) packing)))
      else Some (0, area_t, packing))"

text \<open>
  The test "!can_together || nv12_eff(n_s, ...) > nv12_eff(n_t, ...)": \<open>Inr True\<close> when
  the blocks are to be reserved separately, \<open>Inl\<close> when an \<open>nv12_eff\<close> divides by zero.
\<close>

definition separately_first ::
  "bool \<Rightarrow> int \<Rightarrow> int \<Rightarrow> int \<Rightarrow> int \<Rightarrow> int \<Rightarrow> int \<Rightarrow> fault + bool" where
  "separately_first can_together n_s n_t w area_s area_t n_need =
     (if \<not> can_together then Inr True
      else (case nv12_eff n_s w area_s n_need of
              Inl f \<Rightarrow> Inl f
            | Inr eff_s \<Rightarrow>
                (case nv12_eff n_t w area_t n_need of
                   Inl f \<Rightarrow> Inl f
                 | Inr eff_t \<Rightarrow> Inr (eff_s > eff_t))))"

text \<open>
  The loop "for (i = 0; i < n && res >= 0; i += res)". \<open>i\<close> and \<open>res\<close> are \<open>int\<close>,
  \<open>n\<close> is a \<open>u32\<close>, so \<open>i < n\<close> compares \<open>i\<close> as a \<open>u32\<close> and \<open>n - i\<close> is a \<open>u32\<close>
  stored into \<open>u16\<close> parameters. \<open>area_s\<close>, \<open>area_t\<close> and \<open>packing\<close> are locals that
  keep their value from one iteration to the next. The loop may run forever:
  \<open>None\<close> is not returning. \<open>Some (Inl f)\<close> is the fault of a division, in a scan of
  \<open>nv12_separate\<close> or in \<open>nv12_eff\<close>.
\<close>

partial_function (option) nv12_loop ::
  "tiler_cfg \<Rightarrow> ('s, 'r) tiler_ops \<Rightarrow> int \<Rightarrow> int \<Rightarrow> int \<Rightarrow> int \<Rightarrow> int \<Rightarrow> int \<Rightarrow> bool
     \<Rightarrow> int \<Rightarrow> int \<Rightarrow> int \<Rightarrow> int \<Rightarrow> int list \<Rightarrow> ('s, 'r) world
     \<Rightarrow> (fault + ('s, 'r) world) option" where
  "nv12_loop c ops n w h band a o' can_together i res area_s area_t packing wd =
     (if u32 i < n \<and> res \<ge> 0 then
        (case nv12_separate c o' w a (u16 (u32 (n - i))) area_s of
           Inl f \<Rightarrow> Some (Inl f)
         | Inr (n_s, area_s1) \<Rightarrow>
             (case plan_together c o' w a (u16 (u32 (n - i))) can_together area_t packing of
                None \<Rightarrow> None
              | Some (n_t, area_t1, packing1) \<Rightarrow>
                  (case separately_first can_together n_s n_t w area_s1 area_t1
                          (u16 (u32 (n - i))) of
                     Inl f \<Rightarrow> Some (Inl f)
                   | Inr separately \<Rightarrow>
                       (case (if separately then reserve_separately ops n_s w h band a o' wd
                              else (- 1, wd)) of
                          (res1, wd1) \<Rightarrow>
                            (case (if res1 < 0 \<and> can_together \<and> n_t \<noteq> 0
                                   then lay_nv12_group ops n_t area_t1 w h packing1 wd1
                                   else (res1, wd1)) of
                               (res2, wd2) \<Rightarrow>
                                 nv12_loop c ops n w h band a o' can_together (i + res2) res2
                                   area_s1 area_t1 packing1 wd2)))))
      else Some (Inr wd))"

text \<open>
  \<open>reserve_nv12(n, width, height, align, offs, gid, pi, can_together)\<close>. The locals
  \<open>area_s\<close>, \<open>area_t\<close> and \<open>packing\<close> are not initialised: their first values are the
  parameters \<open>area_s0\<close>, \<open>area_t0\<close> and \<open>packing0\<close>. A return is \<open>Some (Inr wd)\<close> with
  the state it leaves.
\<close>

definition reserve_nv12 ::
  "tiler_cfg \<Rightarrow> ('s, 'r) tiler_ops \<Rightarrow> int \<Rightarrow> int \<Rightarrow> int \<Rightarrow> int \<Rightarrow> int \<Rightarrow> int \<Rightarrow> bool
     \<Rightarrow> int \<Rightarrow> int \<Rightarrow> int list \<Rightarrow> ('s, 'r) world \<Rightarrow> (fault + ('s, 'r) world) option" where
  "reserve_nv12 c ops n width height align offs gid can_together area_s0 area_t0 packing0 wd =
     (if width = 0 \<or> height = 0 \<or> n = 0 \<or>
         offs \<ge> align \<or> offs mod 2 = 1 \<or>
         align \<ge> PAGE_SIZE c \<or>
         n > ops_width c * ops_height c div 2
      then Some (Inr wd)
      else
        (case analize ops TILFMT_8BIT width height
                (u16 (max (PAGE_SIZE c div min (band_8 c) (band_16 c)) (u16 align))) (u16 offs) of
           None \<Rightarrow> Some (Inr (logged (E_analize TILFMT_8BIT width height) wd))
         | Some (w, h, band, a, o') \<Rightarrow>
             if \<not> get_gi ops gid
             then Some (Inr (logged (E_get_gi gid) (logged (E_analize TILFMT_8BIT width height) wd)))
             else
               (case nv12_loop c ops n w h band a o' can_together 0 0 area_s0 area_t0 packing0
                       (logged (E_get_gi gid) (logged (E_analize TILFMT_8BIT width height) wd)) of
                  None \<Rightarrow> None
                | Some (Inl f) \<Rightarrow> Some (Inl f)
                | Some (Inr wd1) \<Rightarrow> Some (Inr (logged E_release_gi wd1)))))"

section \<open>reserve_blocks\<close>

text \<open>
  The inner loop "while (n_try > 1)". \<open>res\<close> is declared \<open>u32\<close> in this function, so
  the result of \<open>lay_2d\<close> is stored as a \<open>u32\<close> and the test \<open>res >= 0\<close> is made on
  that \<open>u32\<close>.
\<close>

function blocks_retry ::
  "('s, 'r) tiler_ops \<Rightarrow> int \<Rightarrow> int \<Rightarrow> int \<Rightarrow> int \<Rightarrow> int \<Rightarrow> int \<Rightarrow> int \<Rightarrow> int \<Rightarrow> ('s, 'r) world
     \<Rightarrow> int \<times> ('s, 'r) world" where
  "blocks_retry ops fmt w h band a o' n_try res wd =
     (if n_try > 1 then
        (case lay_2d_group ops fmt n_try w h band a o' wd of
           (r, wd1) \<Rightarrow>
             if u32 r \<ge> 0 then (u32 r, wd1)
             else blocks_retry ops fmt w h band a o' (u16 (n_try - 1)) (u32 r) wd1)
      else (res, wd))"
  by pat_completeness auto
termination
proof (relation "measure (\<lambda>(ops, fmt, w, h, band, a, o', n_try, res, wd). nat n_try)")
  show "wf (measure (\<lambda>(ops :: ('s, 'r) tiler_ops, fmt :: int, w :: int, h :: int, band :: int,
      a :: int, o' :: int, n_try :: int, res :: int, wd :: ('s, 'r) world). nat n_try))"
    by simp
next
  fix ops :: "('s, 'r) tiler_ops" and fmt w h band a o' n_try res :: int
    and wd wd1 :: "('s, 'r) world" and x :: "int \<times> ('s, 'r) world" and r :: int
  assume "1 < n_try"
  then have "(n_try - 1) mod 65536 \<le> n_try - 1"
    by (intro zmod_le_nonneg_dividend) simp
  with \<open>1 < n_try\<close> show "((ops, fmt, w, h, band, a, o', u16 (n_try - 1), u32 r, wd1),
         (ops, fmt, w, h, band, a, o', n_try, res, wd))
        \<in> measure (\<lambda>(ops, fmt, w, h, band, a, o', n_try, res, wd). nat n_try)"
    by (simp add: u16_def)
qed

declare blocks_retry.simps [simp del]

text \<open>
  The loop "for (i = 0; i < n && res >= 0; i += res)" of \<open>reserve_blocks\<close>, where
  \<open>i\<close>, \<open>res\<close> and \<open>n\<close> are all \<open>u32\<close>: "res = -1" stores \<open>u32 (- 1)\<close> and \<open>i += res\<close>
  wraps. \<open>tiler_best2pack\<close> is given \<open>offs\<close>, not \<open>o\<close>, and \<open>NULL\<close> for \<open>area\<close>.
  The loop may run forever: \<open>None\<close> is not returning; \<open>Some (Inl f)\<close> is the fault of
  the division in \<open>tiler_best2pack\<close>.
\<close>

partial_function (option) blocks_loop ::
  "tiler_cfg \<Rightarrow> ('s, 'r) tiler_ops \<Rightarrow> int \<Rightarrow> int \<Rightarrow> int \<Rightarrow> int \<Rightarrow> int \<Rightarrow> int \<Rightarrow> int \<Rightarrow> int \<Rightarrow> int
     \<Rightarrow> int \<Rightarrow> int \<Rightarrow> ('s, 'r) world \<Rightarrow> (fault + ('s, 'r) world) option" where
  "blocks_loop c ops n fmt offs w h band a o' e i res wd =
     (if i < n \<and> res \<ge> 0 then
        (case tiler_best2pack c (u16 offs) w e band (u16 (min (u32 (n - i)) (ops_width c))) 0 of
           Inl f \<Rightarrow> Some (Inl f)
         | Inr (eff, n_try, area) \<Rightarrow>
             (case blocks_retry ops fmt w h band a o' n_try (u32 (- 1)) wd of
                (res1, wd1) \<Rightarrow>
                  blocks_loop c ops n fmt offs w h band a o' e (u32 (i + res1)) res1 wd1))
      else Some (Inr wd))"

text \<open>
  \<open>reserve_blocks(n, fmt, width, height, align, offs, gid, pi)\<close>. A return is
  \<open>Some (Inr wd)\<close> with the state it leaves.
\<close>

definition reserve_blocks ::
  "tiler_cfg \<Rightarrow> ('s, 'r) tiler_ops \<Rightarrow> int \<Rightarrow> int \<Rightarrow> int \<Rightarrow> int \<Rightarrow> int \<Rightarrow> int \<Rightarrow> int
     \<Rightarrow> ('s, 'r) world \<Rightarrow> (fault + ('s, 'r) world) option" where
  "reserve_blocks c ops n fmt width height align offs gid wd =
     (if width = 0 \<or> height = 0 \<or> n = 0 \<or>
         align > PAGE_SIZE c \<or> offs \<ge> align \<or>
         fmt < TILFMT_8BIT \<or> fmt > TILFMT_32BIT
      then Some (Inr wd)
      else
        (case geom ops fmt of
           (slot_w, bpp) \<Rightarrow>
             if u32 (width * bpp * 2) \<le> PAGE_SIZE c
             then Some (Inr (logged (E_geom fmt) wd))
             else
               (case analize ops fmt width height (u16 align) (u16 offs) of
                  None \<Rightarrow>
                    Some (Inr (logged (E_analize fmt width height) (logged (E_geom fmt) wd)))
                | Some (w, h, band, a, o') \<Rightarrow>
                    if \<not> get_gi ops gid
                    then Some (Inr (logged (E_get_gi gid)
                                (logged (E_analize fmt width height) (logged (E_geom fmt) wd))))
                    else
                      (case blocks_loop c ops n fmt offs w h band a o' (u16 (ALIGN w a)) 0 0
                              (logged (E_get_gi gid)
                                (logged (E_analize fmt width height) (logged (E_geom fmt) wd))) of
                         None \<Rightarrow> None
                       | Some (Inl f) \<Rightarrow> Some (Inl f)
                       | Some (Inr wd1) \<Rightarrow> Some (Inr (logged E_release_gi wd1))))))"

section \<open>Notions used to state the properties\<close>

text \<open>
  What \<open>tiler_best2pack\<close> computes for block \<open>k\<close> of a run (blocks at
  \<open>o, o + e, o + 2e, ...\<close>): \<open>ar_at k\<close> is the value of \<open>ar\<close> when block \<open>k\<close> is
  tested, \<open>blk_ok k\<close> is the loop condition on block \<open>k\<close> apart from the count
  bound, \<open>eff_at m\<close> is the efficiency computed for a run of \<open>m\<close> blocks, and
  \<open>run_ok m\<close> says that the blocks \<open>0, ..., m - 1\<close> all pass the loop condition.
\<close>

definition ar_at :: "int \<Rightarrow> int \<Rightarrow> int \<Rightarrow> int \<Rightarrow> int \<Rightarrow> int" where
  "ar_at o' w e b k = u16 (ALIGN (o' + k * e + w) b)"

definition blk_ok :: "int \<Rightarrow> int \<Rightarrow> int \<Rightarrow> int \<Rightarrow> int \<Rightarrow> int \<Rightarrow> bool" where
  "blk_ok W o' w e b k =
     (o' + k * e + w \<le> W \<and> u16 (ALIGN (o' + w) b) = ALIGN (ar_at o' w e b k - o' - k * e) b)"

definition eff_at :: "int \<Rightarrow> int \<Rightarrow> int \<Rightarrow> int \<Rightarrow> int \<Rightarrow> int" where
  "eff_at o' w e b m = u32 (c_div (s32 (s32 (m * w) * 1024)) (ar_at o' w e b (m - 1)))"

definition run_ok :: "int \<Rightarrow> int \<Rightarrow> int \<Rightarrow> int \<Rightarrow> int \<Rightarrow> int \<Rightarrow> bool" where
  "run_ok W o' w e b m = list_all (\<lambda>k. blk_ok W o' w e b (int k)) [0..<nat m]"

text \<open>The invariant of the loop of \<open>tiler_best2pack\<close> after \<open>m\<close> iterations.\<close>

definition b2p_inv ::
  "int \<Rightarrow> int \<Rightarrow> int \<Rightarrow> int \<Rightarrow> int \<Rightarrow> int \<Rightarrow> int \<Rightarrow> int \<Rightarrow> int \<Rightarrow> int \<Rightarrow> int \<Rightarrow> bool" where
  "b2p_inv W o' w e b n0 area0 m best n area =
     (0 \<le> m \<and> 0 \<le> best \<and> run_ok W o' w e b m \<and>
      (\<forall>j. 1 \<le> j \<and> j \<le> m \<longrightarrow> eff_at o' w e b j \<le> best) \<and>
      (if best = 0 then n = n0 \<and> area = area0
       else 1 \<le> n \<and> n \<le> m \<and> eff_at o' w e b n = best \<and> area = ar_at o' w e b (n - 1) \<and>
            (\<forall>j. 1 \<le> j \<and> j < n \<longrightarrow> eff_at o' w e b j < best)))"

text \<open>
  What a call leaves behind, compared with the state it started from: the calls it has
  made are appended to the trace, and the group's list is only extended.
\<close>

definition grows :: "('s, 'r) world \<Rightarrow> ('s, 'r) world \<Rightarrow> bool" where
  "grows wd wd' = (prefix (trace wd) (trace wd') \<and> prefix (gi_reserved wd) (gi_reserved wd'))"

text \<open>
  The calls that \<open>reserve_blocks\<close> makes in its loop: \<open>lay_2d\<close> for at least two
  blocks, with the given format and area parameters.
\<close>

definition commit_events ::
  "int \<Rightarrow> int \<Rightarrow> int \<Rightarrow> int \<Rightarrow> int \<Rightarrow> int \<Rightarrow> 'r event list \<Rightarrow> bool" where
  "commit_events fmt w h band a o' t =
     list_all (\<lambda>ev. \<exists>k. 2 \<le> k \<and> ev = E_lay_2d fmt k w h band a o') t"

definition commits_only ::
  "int \<Rightarrow> int \<Rightarrow> int \<Rightarrow> int \<Rightarrow> int \<Rightarrow> int \<Rightarrow> ('s, 'r) world \<Rightarrow> ('s, 'r) world \<Rightarrow> bool" where
  "commits_only fmt w h band a o' wd wd' =
     ((\<exists>t. trace wd' = trace wd @ t \<and> commit_events fmt w h band a o' t) \<and>
      prefix (gi_reserved wd) (gi_reserved wd') \<and>
      released wd' = released wd \<and> reserved wd' = reserved wd)"

text \<open>
  An allocator that reports progress: a commit never reports zero blocks, and, the
  counts being 16-bit values, never more than 65535.
\<close>

definition reports_progress :: "('s, 'r) tiler_ops \<Rightarrow> bool" where
  "reports_progress ops =
     ((\<forall>s fmt k w h band a o'.
         fst (lay_2d ops s fmt k w h band a o') \<noteq> 0 \<and>
         fst (lay_2d ops s fmt k w h band a o') \<le> 65535) \<and>
      (\<forall>s k area w h p.
         fst (lay_nv12 ops s k area w h p) \<noteq> 0 \<and>
         fst (lay_nv12 ops s k area w h p) \<le> 65535))"

text \<open>
  A normalised request on which the loops of the generators advance without wrapping
  their 16-bit counters.
\<close>

definition slots_ok :: "tiler_cfg \<Rightarrow> int \<Rightarrow> int \<Rightarrow> int \<Rightarrow> bool" where
  "slots_ok c w a o' =
     (0 \<le> o' \<and> 1 \<le> w \<and> 1 \<le> a \<and> 1 \<le> band_8 c \<and> o' + w + band_8 c + a \<le> 65536)"

text \<open>The two scans of \<open>nv12_separate\<close>, as it calls them.\<close>

definition scan_8 ::
  "tiler_cfg \<Rightarrow> int \<Rightarrow> int \<Rightarrow> int \<Rightarrow> int \<Rightarrow> int \<Rightarrow> fault + int \<times> int \<times> int" where
  "scan_8 c o' w a n area =
     tiler_best2pack c o' w (u16 (ALIGN w a)) (u16 (band_8 c)) n area"

definition scan_16 ::
  "tiler_cfg \<Rightarrow> int \<Rightarrow> int \<Rightarrow> int \<Rightarrow> int \<Rightarrow> int \<Rightarrow> fault + int \<times> int \<times> int" where
  "scan_16 c o' w a n area =
     tiler_best2pack c (o' div 2) ((w + 1) div 2) (u16 (ALIGN w a div 2)) (u16 (band_16 c)) n area"






text \<open>
  The table of special packings holds two entries, at the indices 0 and 23 of
  \<open>packings\<close>: a count, the offset, width and alignment the entry was made for, its
  area size, and then its pairs. \<open>satisfactory q\<close> is the test
  "a_ >= a && o + w + ALIGN(o_ - o, a) <= o_ + w_" on the entry at \<open>q\<close>, and
  \<open>replaced_by n q s\<close> is the selection once that entry has replaced the incumbent of
  \<open>s\<close>. \<open>spec_special\<close> is the rule of the table in words: the entries are looked
  at in their order for as long as their count is not below the incumbent's, and the
  first satisfactory one replaces the incumbent, whether or not it places more pairs.
\<close>

definition satisfactory :: "int \<Rightarrow> int \<Rightarrow> int \<Rightarrow> nat \<Rightarrow> bool" where
  "satisfactory o' w a q =
     (a \<le> packings ! (q + 3) \<and>
      o' + w + ALIGN (packings ! (q + 1) - o') a \<le> packings ! (q + 1) + packings ! (q + 2))"

definition replaced_by :: "int \<Rightarrow> nat \<Rightarrow> selection \<Rightarrow> selection" where
  "replaced_by n q s =
     s\<lparr>n_best := min (packings ! q) n, sel_area := packings ! (q + 4),
       p_best := Some (drop (q + 5) packings), p_src := PACK_special\<rparr>"


section \<open>Sample configurations and collaborators\<close>

text \<open>
  A container of 256 by 128 slots with 64-slot bands (the source packs "into a
  64-slot area"), the same with a width of 1024 and of 65535 slots, and an allocator
  whose answers are given by functions of the format and the count asked for. It hands
  out one new area handle for every call that does not fail.
\<close>

definition cfg_256 :: tiler_cfg where
  "cfg_256 = \<lparr>band_8 = 64, band_16 = 64, ops_width = 256, ops_height = 128, PAGE_SIZE = 4096\<rparr>"

definition cfg_1024 :: tiler_cfg where
  "cfg_1024 = \<lparr>band_8 = 64, band_16 = 64, ops_width = 1024, ops_height = 128, PAGE_SIZE = 4096\<rparr>"

definition cfg_65535 :: tiler_cfg where
  "cfg_65535 = \<lparr>band_8 = 64, band_16 = 64, ops_width = 65535, ops_height = 128, PAGE_SIZE = 4096\<rparr>"

definition sample_ops ::
  "int \<times> int \<times> int \<times> int \<times> int \<Rightarrow> (int \<Rightarrow> int \<Rightarrow> int) \<Rightarrow> (int \<Rightarrow> int) \<Rightarrow> (nat, nat) tiler_ops" where
  "sample_ops slots answer_2d answer_nv12 =
     \<lparr>geom = (\<lambda>fmt. if fmt = TILFMT_8BIT then (64, 1)
                     else if fmt = TILFMT_16BIT then (32, 2) else (32, 4)),
      analize = (\<lambda>fmt width height a o'. Some slots),
      get_gi = (\<lambda>gid. True),
      lay_2d = (\<lambda>s fmt n w h band a o'.
                  (answer_2d fmt n, if answer_2d fmt n < 0 then [] else [s], Suc s)),
      lay_nv12 = (\<lambda>s n area w h p.
                  (answer_nv12 n, if answer_nv12 n < 0 then [] else [s], Suc s)),
      release = (\<lambda>s l. s),
      add_reserved = (\<lambda>s l. s)\<rparr>"

text \<open>
  Allocators for the examples: one that accepts every request in full, one whose
  16-bit \<open>lay_2d\<close> fails, one that reports zero blocks for every request, one
  that accepts a single block only, one that accepts every request for 1 to 65535
  blocks in full and rejects any other, one that commits one block of every request,
  and one that has room for two blocks in an area and fails for more. The last two
  normalise a request to blocks of 66 slots aligned to 2 slots, which is what an 8-bit
  request of 4224 by 512 pixels aligned to 128 bytes comes to with slots of 64 by 64
  pixels.
\<close>

definition ops_accept :: "(nat, nat) tiler_ops" where
  "ops_accept = sample_ops (32, 8, 64, 32, 2) (\<lambda>fmt n. n) (\<lambda>n. n)"

definition ops_16_fails :: "(nat, nat) tiler_ops" where
  "ops_16_fails =
     sample_ops (3, 2, 64, 4, 0) (\<lambda>fmt n. if fmt = TILFMT_8BIT then n else - 12) (\<lambda>n. n)"

definition ops_zero :: "(nat, nat) tiler_ops" where
  "ops_zero = sample_ops (32, 8, 64, 32, 0) (\<lambda>fmt n. 0) (\<lambda>n. 0)"

definition ops_single :: "(nat, nat) tiler_ops" where
  "ops_single = sample_ops (32, 8, 64, 32, 0) (\<lambda>fmt n. if n = 1 then 1 else - 12) (\<lambda>n. - 12)"

definition ops_sane :: "(nat, nat) tiler_ops" where
  "ops_sane =
     sample_ops (4, 8, 64, 4, 2) (\<lambda>fmt n. if 1 \<le> n \<and> n \<le> 65535 then n else - 12)
       (\<lambda>n. if 1 \<le> n \<and> n \<le> 65535 then n else - 12)"

definition ops_one :: "(nat, nat) tiler_ops" where
  "ops_one = sample_ops (66, 8, 64, 2, 0) (\<lambda>fmt n. 1) (\<lambda>n. 1)"

definition ops_two :: "(nat, nat) tiler_ops" where
  "ops_two =
     sample_ops (66, 8, 64, 2, 0) (\<lambda>fmt n. if 1 \<le> n \<and> n \<le> 2 then n else - 12) (\<lambda>n. - 12)"

definition world_0 :: "(nat, nat) world" where
  "world_0 = \<lparr>alloc = 0, reserved = [], gi_reserved = [], released = [], trace = []\<rparr>"

section \<open>Arithmetic of \<open>ALIGN\<close> and of the casts\<close>

lemma ALIGN_ge: "0 < a \<Longrightarrow> x \<le> ALIGN x a"
proof -
  assume a: "0 < a"
  have "x + a - 1 = (x + a - 1) div a * a + (x + a - 1) mod a" by simp
  moreover from a have "(x + a - 1) mod a < a" by simp
  ultimately have "x + a - 1 < (x + a - 1) div a * a + a" by linarith
  then show ?thesis unfolding ALIGN_def by linarith
qed

lemma ALIGN_lt: "0 < a \<Longrightarrow> ALIGN x a < x + a"
proof -
  assume a: "0 < a"
  have "x + a - 1 = (x + a - 1) div a * a + (x + a - 1) mod a" by simp
  moreover from a have "0 \<le> (x + a - 1) mod a" by simp
  ultimately have "(x + a - 1) div a * a \<le> x + a - 1" by linarith
  then show ?thesis unfolding ALIGN_def by linarith
qed

lemma u16_nonneg: "0 \<le> u16 x"
  by (simp add: u16_def)

lemma u16_id: "0 \<le> x \<Longrightarrow> x < 65536 \<Longrightarrow> u16 x = x"
  by (simp add: u16_def)

lemma s32_id: "- 2147483648 \<le> x \<Longrightarrow> x < 2147483648 \<Longrightarrow> s32 x = x"
  by (simp add: s32_def)

lemma u32_nonneg: "0 \<le> u32 x"
  by (simp add: u32_def)

lemma c_div_nonneg: "0 \<le> x \<Longrightarrow> 0 < y \<Longrightarrow> c_div x y = x div y"
  by (cases "x = 0") (simp_all add: c_div_def)

section \<open>The scan of \<open>tiler_best2pack\<close>\<close>

text \<open>
  The divisor \<open>ar\<close> of the efficiency is not zero when the block it is computed for
  passes the loop condition, for a positive band and block width, as long as the
  container is narrow enough for area widths not to wrap in 16 bits.
\<close>

lemma ar_at_positive:
  assumes "0 < b" and "0 < w" and "0 \<le> o' + k * e" and "o' + k * e + w \<le> W"
    and "W + b \<le> 65536"
  shows "0 < ar_at o' w e b k"
proof -
  let ?x = "o' + k * e + w"
  from ALIGN_ge[OF assms(1), of ?x] ALIGN_lt[OF assms(1), of ?x] assms
  have "u16 (ALIGN ?x b) = ALIGN ?x b" by (intro u16_id) auto
  with ALIGN_ge[OF assms(1), of ?x] assms show ?thesis unfolding ar_at_def by simp
qed

text \<open>
  While the product \<open>m * w * 1024\<close> fits into 32 bits, the efficiency is the quotient
  of the exact values, rounded down.
\<close>

lemma eff_at_exact:
  assumes "0 \<le> m * w" and "m * w * 1024 < 2147483648" and "0 < ar_at o' w e b (m - 1)"
  shows "eff_at o' w e b m = (m * w * 1024) div ar_at o' w e b (m - 1)"
proof -
  let ?ar = "ar_at o' w e b (m - 1)"
  from assms have 1: "s32 (m * w) = m * w" by (intro s32_id) auto
  from assms have 2: "s32 (m * w * 1024) = m * w * 1024" by (intro s32_id) auto
  from assms have 3: "c_div (m * w * 1024) ?ar = (m * w * 1024) div ?ar"
    by (intro c_div_nonneg) auto
  from assms have "0 \<le> (m * w * 1024) div ?ar" by (simp add: pos_imp_zdiv_nonneg_iff)
  moreover from assms zdiv_mono2[of "m * w * 1024" 1 ?ar]
  have "(m * w * 1024) div ?ar \<le> m * w * 1024" by simp
  ultimately have 4: "u32 ((m * w * 1024) div ?ar) = (m * w * 1024) div ?ar"
    using assms(2) by (simp add: u32_def)
  show ?thesis unfolding eff_at_def 1 2 3 4 ..
qed

text \<open>
  The sum \<open>o + m * e + w\<close> that the loop condition computes for block \<open>m\<close> fits into
  a 32-bit \<open>int\<close>: the block before has passed the test against the container width.
\<close>

lemma best2pack_sum_fits:
  assumes "0 \<le> o'" and "0 \<le> w" and "0 \<le> e" and "e \<le> 65535" and "1 \<le> m"
    and "blk_ok W o' w e b (m - 1)" and "W \<le> 2147418112"
  shows "0 \<le> o' + m * e + w \<and> o' + m * e + w < 2147483648"
proof -
  from assms(6) have "o' + (m - 1) * e + w \<le> W" unfolding blk_ok_def by simp
  then have "o' + m * e + w \<le> W + e" by (simp add: algebra_simps)
  with assms show ?thesis by auto
qed

lemma run_ok_iff: "run_ok W o' w e b m = (\<forall>k. 0 \<le> k \<and> k < m \<longrightarrow> blk_ok W o' w e b k)"
proof
  assume r: "run_ok W o' w e b m"
  show "\<forall>k. 0 \<le> k \<and> k < m \<longrightarrow> blk_ok W o' w e b k"
  proof (intro allI impI)
    fix k :: int assume k: "0 \<le> k \<and> k < m"
    then have "nat k \<in> set [0..<nat m]" by simp
    with r have "blk_ok W o' w e b (int (nat k))"
      unfolding run_ok_def list_all_iff by blast
    with k show "blk_ok W o' w e b k" by simp
  qed
next
  assume "\<forall>k. 0 \<le> k \<and> k < m \<longrightarrow> blk_ok W o' w e b k"
  then show "run_ok W o' w e b m"
    unfolding run_ok_def list_all_iff by auto
qed

lemma run_ok_step:
  "0 \<le> m \<Longrightarrow> run_ok W o' w e b m \<Longrightarrow> blk_ok W o' w e b m \<Longrightarrow> run_ok W o' w e b (m + 1)"
  unfolding run_ok_iff
proof (intro allI impI)
  fix k :: int
  assume m: "0 \<le> m" and a: "\<forall>k. 0 \<le> k \<and> k < m \<longrightarrow> blk_ok W o' w e b k"
    and b: "blk_ok W o' w e b m" and k: "0 \<le> k \<and> k < m + 1"
  show "blk_ok W o' w e b k"
  proof (cases "k = m")
    case True then show ?thesis using b by simp
  next
    case False with k have "k < m" by simp
    with a k show ?thesis by blast
  qed
qed

lemma b2p_inv_step:
  assumes inv: "b2p_inv W o' w e b n0 area0 m best n area"
    and ok: "blk_ok W o' w e b m"
  shows "b2p_inv W o' w e b n0 area0 (m + 1)
           (if eff_at o' w e b (m + 1) > best then eff_at o' w e b (m + 1) else best)
           (if eff_at o' w e b (m + 1) > best then m + 1 else n)
           (if eff_at o' w e b (m + 1) > best then ar_at o' w e b m else area)"
proof -
  let ?E = "eff_at o' w e b (m + 1)"
  from inv have m0: "0 \<le> m" and b0: "0 \<le> best" and ro: "run_ok W o' w e b m"
    and le: "\<forall>j. 1 \<le> j \<and> j \<le> m \<longrightarrow> eff_at o' w e b j \<le> best"
    unfolding b2p_inv_def by auto
  have ro': "run_ok W o' w e b (m + 1)" using run_ok_step[OF m0 ro ok] .
  show ?thesis
  proof (cases "?E > best")
    case True
    have le': "\<forall>j. 1 \<le> j \<and> j \<le> m + 1 \<longrightarrow> eff_at o' w e b j \<le> ?E"
    proof (intro allI impI)
      fix j :: int assume j: "1 \<le> j \<and> j \<le> m + 1"
      show "eff_at o' w e b j \<le> ?E"
      proof (cases "j = m + 1")
        case True then show ?thesis by simp
      next
        case False with j have "j \<le> m" by simp
        with le j have "eff_at o' w e b j \<le> best" by blast
        with True show ?thesis by simp
      qed
    qed
    have lt': "\<forall>j. 1 \<le> j \<and> j < m + 1 \<longrightarrow> eff_at o' w e b j < ?E"
    proof (intro allI impI)
      fix j :: int assume j: "1 \<le> j \<and> j < m + 1"
      with le have "eff_at o' w e b j \<le> best" by simp
      with True show "eff_at o' w e b j < ?E" by simp
    qed
    from True b0 have "?E \<noteq> 0" "0 \<le> ?E" by auto
    with True m0 ro' le' lt' show ?thesis
      unfolding b2p_inv_def by simp
  next
    case False
    have le': "\<forall>j. 1 \<le> j \<and> j \<le> m + 1 \<longrightarrow> eff_at o' w e b j \<le> best"
    proof (intro allI impI)
      fix j :: int assume j: "1 \<le> j \<and> j \<le> m + 1"
      show "eff_at o' w e b j \<le> best"
      proof (cases "j = m + 1")
        case True then show ?thesis using False by simp
      next
        case F: False with j have "j \<le> m" by simp
        with le j show ?thesis by blast
      qed
    qed
    from inv have rest: "if best = 0 then n = n0 \<and> area = area0
       else 1 \<le> n \<and> n \<le> m \<and> eff_at o' w e b n = best \<and> area = ar_at o' w e b (n - 1) \<and>
            (\<forall>j. 1 \<le> j \<and> j < n \<longrightarrow> eff_at o' w e b j < best)"
      unfolding b2p_inv_def by simp
    have rest': "if best = 0 then n = n0 \<and> area = area0
       else 1 \<le> n \<and> n \<le> m + 1 \<and> eff_at o' w e b n = best \<and> area = ar_at o' w e b (n - 1) \<and>
            (\<forall>j. 1 \<le> j \<and> j < n \<longrightarrow> eff_at o' w e b j < best)"
      using rest by (cases "best = 0") auto
    from False m0 b0 ro' le' rest' show ?thesis
      unfolding b2p_inv_def by simp
  qed
qed

text \<open>One iteration of the loop, for a block that passes the condition.\<close>

lemma best2pack_loop_step:
  assumes "m < max_n" and "o' + m * e + w \<le> W" and "stride = ALIGN (ar - o' - m * e) b"
    and "ar \<noteq> 0"
  shows "best2pack_loop W o' w e b max_n stride m best n area ar =
     (if u32 (c_div (s32 (s32 ((m + 1) * w) * 1024)) ar) > best
      then best2pack_loop W o' w e b max_n stride (m + 1)
             (u32 (c_div (s32 (s32 ((m + 1) * w) * 1024)) ar)) (m + 1) ar
             (u16 (ALIGN (o' + (m + 1) * e + w) b))
      else best2pack_loop W o' w e b max_n stride (m + 1) best n area
             (u16 (ALIGN (o' + (m + 1) * e + w) b)))"
  using assms by (subst best2pack_loop.simps) (simp add: Let_def)

lemma best2pack_loop_stop:
  assumes "\<not> (m < max_n \<and> o' + m * e + w \<le> W \<and> stride = ALIGN (ar - o' - m * e) b)"
  shows "best2pack_loop W o' w e b max_n stride m best n area ar = Inr (best, n, area)"
  by (subst best2pack_loop.simps) (simp only: assms if_False)

lemma best2pack_loop_fault:
  assumes "m < max_n" and "o' + m * e + w \<le> W" and "stride = ALIGN (ar - o' - m * e) b"
    and "ar = 0"
  shows "best2pack_loop W o' w e b max_n stride m best n area ar = Inl DivisionByZero"
  using assms by (subst best2pack_loop.simps) simp

lemma best2pack_loop_inv:
  "stride = u16 (ALIGN (o' + w) b) \<Longrightarrow>
   b2p_inv W o' w e b n0 area0 m best n area \<Longrightarrow> ar = ar_at o' w e b m \<Longrightarrow>
   best2pack_loop W o' w e b max_n stride m best n area ar = Inr (best', n', area') \<Longrightarrow>
   \<exists>L. m \<le> L \<and> (L \<le> max_n \<or> L = m) \<and> b2p_inv W o' w e b n0 area0 L best' n' area' \<and>
       \<not> (L < max_n \<and> blk_ok W o' w e b L)"
proof (induction W o' w e b max_n stride m best n area ar rule: best2pack_loop.induct)
  case (1 W o' w e b max_n stride m best n area ar)
  let ?c = "m < max_n \<and> o' + m * e + w \<le> W \<and> stride = ALIGN (ar - o' - m * e) b"
  note st = "1.prems"(1) and inv = "1.prems"(2) and ar = "1.prems"(3) and run = "1.prems"(4)
  show ?case
  proof (cases ?c)
    case False
    from run best2pack_loop_stop[OF False] have eq: "best' = best" "n' = n" "area' = area"
      by simp_all
    from False ar st have "\<not> (m < max_n \<and> blk_ok W o' w e b m)"
      unfolding blk_ok_def by auto
    with inv eq show ?thesis by (intro exI[of _ m]) simp
  next
    case True
    then have ok: "blk_ok W o' w e b m" using ar st unfolding blk_ok_def by simp
    from True have c1: "m < max_n" and c2: "o' + m * e + w \<le> W"
      and c3: "stride = ALIGN (ar - o' - m * e) b" by auto
    have nz: "ar \<noteq> 0"
    proof
      assume "ar = 0"
      from best2pack_loop_fault[OF c1 c2 c3 this] run show False by simp
    qed
    let ?E = "eff_at o' w e b (m + 1)"
    let ?eff = "u32 (c_div (s32 (s32 ((m + 1) * w) * 1024)) ar)"
    have E: "?eff = ?E"
      using ar unfolding eff_at_def by simp
    have ar1: "u16 (ALIGN (o' + (m + 1) * e + w) b) = ar_at o' w e b (m + 1)"
      unfolding ar_at_def by simp
    note step = b2p_inv_step[OF inv ok]
    note unf = best2pack_loop_step[OF c1 c2 c3 nz, of best n area]
    show ?thesis
    proof (cases "?E > best")
      case gt: True
      then have gt': "best < ?eff" using E by simp
      from run unf gt' have r: "best2pack_loop W o' w e b max_n stride
            (m + 1) ?eff (m + 1) ar (u16 (ALIGN (o' + (m + 1) * e + w) b))
             = Inr (best', n', area')"
        by simp
      from step gt ar E have inv': "b2p_inv W o' w e b n0 area0 (m + 1) ?eff (m + 1) ar" by simp
      from "1.IH"(1)[OF True nz refl refl refl gt' st inv' ar1 r]
      obtain L where "m + 1 \<le> L" "L \<le> max_n \<or> L = m + 1"
        "b2p_inv W o' w e b n0 area0 L best' n' area'" "\<not> (L < max_n \<and> blk_ok W o' w e b L)"
        by auto
      with True show ?thesis by (intro exI[of _ L]) auto
    next
      case ngt: False
      then have ngt': "\<not> best < ?eff" using E by simp
      from run unf ngt' have r: "best2pack_loop W o' w e b max_n stride
            (m + 1) best n area (u16 (ALIGN (o' + (m + 1) * e + w) b)) = Inr (best', n', area')"
        by simp
      from step ngt have inv': "b2p_inv W o' w e b n0 area0 (m + 1) best n area" by simp
      from "1.IH"(2)[OF True nz refl refl refl ngt' st inv' ar1 r]
      obtain L where "m + 1 \<le> L" "L \<le> max_n \<or> L = m + 1"
        "b2p_inv W o' w e b n0 area0 L best' n' area'" "\<not> (L < max_n \<and> blk_ok W o' w e b L)"
        by auto
      with True show ?thesis by (intro exI[of _ L]) auto
    qed
  qed
qed

text \<open>The loop returns when no area width is zero at a block that passes the first two tests.\<close>

lemma best2pack_loop_returns:
  "ar = ar_at o' w e b m \<Longrightarrow>
   \<forall>k. m \<le> k \<and> k < max_n \<and> o' + k * e + w \<le> W \<longrightarrow> ar_at o' w e b k \<noteq> 0 \<Longrightarrow>
   \<exists>r. best2pack_loop W o' w e b max_n stride m best n area ar = Inr r"
proof (induction W o' w e b max_n stride m best n area ar rule: best2pack_loop.induct)
  case (1 W o' w e b max_n stride m best n area ar)
  let ?c = "m < max_n \<and> o' + m * e + w \<le> W \<and> stride = ALIGN (ar - o' - m * e) b"
  note ar = "1.prems"(1) and nz = "1.prems"(2)
  show ?case
  proof (cases ?c)
    case False
    from best2pack_loop_stop[OF False] show ?thesis by blast
  next
    case True
    then have c1: "m < max_n" and c2: "o' + m * e + w \<le> W"
      and c3: "stride = ALIGN (ar - o' - m * e) b" by auto
    from nz c1 c2 ar have z: "ar \<noteq> 0" by simp
    let ?eff = "u32 (c_div (s32 (s32 ((m + 1) * w) * 1024)) ar)"
    have ar1: "u16 (ALIGN (o' + (m + 1) * e + w) b) = ar_at o' w e b (m + 1)"
      unfolding ar_at_def by simp
    from nz have nz': "\<forall>k. m + 1 \<le> k \<and> k < max_n \<and> o' + k * e + w \<le> W
        \<longrightarrow> ar_at o' w e b k \<noteq> 0" by simp
    note unf = best2pack_loop_step[OF c1 c2 c3 z, of best n area]
    show ?thesis
    proof (cases "best < ?eff")
      case gt: True
      from "1.IH"(1)[OF True z refl refl refl gt ar1 nz'] unf gt show ?thesis by simp
    next
      case ngt: False
      from "1.IH"(2)[OF True z refl refl refl ngt ar1 nz'] unf ngt show ?thesis by simp
    qed
  qed
qed

lemma b2p_inv_init: "b2p_inv W o' w e b n area 0 0 n area"
  unfolding b2p_inv_def run_ok_def by simp

lemma tiler_best2pack_post:
  assumes "tiler_best2pack c o' w e b n area = Inr (best', n', area')"
  shows "\<exists>L. 0 \<le> L \<and> (L \<le> n \<or> L = 0) \<and> b2p_inv (ops_width c) o' w e b n area L best' n' area' \<and>
       \<not> (L < n \<and> blk_ok (ops_width c) o' w e b L)"
proof -
  from assms have r: "best2pack_loop (ops_width c) o' w e b n (u16 (ALIGN (o' + w) b)) 0 0 n area
      (u16 (ALIGN (o' + w) b)) = Inr (best', n', area')"
    unfolding tiler_best2pack_def by (simp add: Let_def)
  have a0: "u16 (ALIGN (o' + w) b) = ar_at o' w e b 0" unfolding ar_at_def by simp
  from best2pack_loop_inv[OF refl b2p_inv_init a0 r] show ?thesis by blast
qed

lemma tiler_best2pack_run:
  assumes "tiler_best2pack c o' w e b n area = Inr (best', n', area')" and "0 < best'"
  shows "1 \<le> n' \<and> n' \<le> n \<and> run_ok (ops_width c) o' w e b n'"
proof -
  from tiler_best2pack_post[OF assms(1)] obtain L where L: "0 \<le> L" "L \<le> n \<or> L = 0"
    and inv: "b2p_inv (ops_width c) o' w e b n area L best' n' area'" by blast
  from inv assms(2) have ro: "run_ok (ops_width c) o' w e b L" and nl: "1 \<le> n'" "n' \<le> L"
    unfolding b2p_inv_def by auto
  from ro nl have "run_ok (ops_width c) o' w e b n'" unfolding run_ok_iff by auto
  with nl L show ?thesis by auto
qed

lemma tiler_best2pack_unclaimed:
  assumes "tiler_best2pack c o' w e b n area = Inr (best', n', area')" and "\<not> 0 < best'"
  shows "best' = 0 \<and> n' = n \<and> area' = area"
proof -
  from tiler_best2pack_post[OF assms(1)] obtain L where
    inv: "b2p_inv (ops_width c) o' w e b n area L best' n' area'" by blast
  then have "0 \<le> best'" unfolding b2p_inv_def by simp
  with assms(2) have "best' = 0" by simp
  with inv show ?thesis unfolding b2p_inv_def by simp
qed

text \<open>
  \<open>tiler_best2pack\<close> returns, without a fault, for 16-bit arguments with a positive
  width and band in a container on which no area width wraps to zero.
\<close>

lemma tiler_best2pack_returns:
  assumes "0 < w" and "0 < b" and "0 \<le> o'" and "0 \<le> e" and "ops_width c + b \<le> 65536"
  shows "\<exists>r. tiler_best2pack c o' w e b n area = Inr r"
proof -
  have nz: "\<forall>k. 0 \<le> k \<and> k < n \<and> o' + k * e + w \<le> ops_width c \<longrightarrow> ar_at o' w e b k \<noteq> 0"
  proof (intro allI impI)
    fix k :: int assume k: "0 \<le> k \<and> k < n \<and> o' + k * e + w \<le> ops_width c"
    with assms have "0 \<le> o' + k * e" by simp
    from ar_at_positive[OF assms(2) assms(1) this _ assms(5)] k
    show "ar_at o' w e b k \<noteq> 0" by auto
  qed
  have a0: "u16 (ALIGN (o' + w) b) = ar_at o' w e b 0" unfolding ar_at_def by simp
  from best2pack_loop_returns[OF a0 nz] show ?thesis
    unfolding tiler_best2pack_def by (simp add: Let_def)
qed

subsection \<open>Claim C2: which run length is selected\<close>

text \<open>
  The claim measures a run by the density \<open>m * w\<close> divided by the area width. The
  code compares \<open>m * w * 1024 / ar\<close> in integer arithmetic. In a container 1024 slots
  wide, for \<open>o = 28\<close>, \<open>w = 5\<close>, \<open>e = 32\<close>, \<open>b = 32\<close> and at most 16 blocks, it
  returns 15 blocks in an area 512 wide, although 16 blocks are a valid run, in an
  area 544 wide, and \<open>80 / 544\<close> is more than \<open>75 / 512\<close>: both runs have the
  efficiency 150. Nor does it return for every input with \<open>w > 0\<close>: in a container
  65535 slots wide, a block of 65500 slots passes the loop condition with the area
  width 65536, which is zero in 16 bits, and the efficiency divides by it.
\<close>

theorem tiler_best2pack_density_counterexample:
  "tiler_best2pack cfg_1024 28 5 32 32 16 0 = Inr (150, 15, 512) \<and>
   run_ok (ops_width cfg_1024) 28 5 32 32 16 \<and>
   ar_at 28 5 32 32 (16 - 1) = 544 \<and>
   (15 * 5) * 544 < (16 * 5) * (512 :: int) \<and>
   tiler_best2pack cfg_65535 0 65500 65500 64 2 5 = Inl DivisionByZero"
  by (simp add: tiler_best2pack_def cfg_1024_def cfg_65535_def best2pack_loop.simps u16_def
      u32_def s32_id c_div_nonneg ALIGN_def Let_def run_ok_def blk_ok_def ar_at_def upt_rec)

text \<open>
  Claim C2, as the code has it. For 16-bit arguments with a positive width and band,
  in a container narrow enough for no area width to wrap to zero in 16 bits
  (\<open>ops->width + b \<le> 65536\<close>), \<open>tiler_best2pack\<close> returns without dividing by zero.
  Among the run lengths \<open>m\<close> of at most \<open>n\<close> blocks whose blocks all pass the loop
  condition, it selects the smallest one with the greatest efficiency, and returns it
  together with its area width, provided that efficiency is not zero. The efficiency
  of a run is the value the code computes, \<open>m * w * 1024 / ar\<close> on 32-bit \<open>int\<close>;
  while the product is below \<open>2^31\<close> that is the density in units of 1/1024, rounded
  down. When no run has a non-zero efficiency, and in particular when not even the
  first block passes, it returns the efficiency zero and leaves the count and the area
  as they were.
\<close>

theorem tiler_best2pack_selects:
  assumes "0 < w" and "0 < b" and "0 \<le> o'" and "0 \<le> e" and "ops_width c + b \<le> 65536"
  shows "\<exists>best' n' area'.
     tiler_best2pack c o' w e b n area = Inr (best', n', area') \<and>
     (\<forall>m. 1 \<le> m \<and> m \<le> n \<and> run_ok (ops_width c) o' w e b m \<longrightarrow> eff_at o' w e b m \<le> best') \<and>
     (0 < best' \<longrightarrow> 1 \<le> n' \<and> n' \<le> n \<and> run_ok (ops_width c) o' w e b n' \<and>
         eff_at o' w e b n' = best' \<and> area' = ar_at o' w e b (n' - 1) \<and>
         (\<forall>j. 1 \<le> j \<and> j < n' \<longrightarrow> eff_at o' w e b j < best')) \<and>
     (\<not> 0 < best' \<longrightarrow> best' = 0 \<and> n' = n \<and> area' = area) \<and>
     (\<not> blk_ok (ops_width c) o' w e b 0 \<longrightarrow> best' = 0 \<and> n' = n \<and> area' = area) \<and>
     (\<forall>m. 1 \<le> m \<and> m * w * 1024 < 2147483648 \<and> run_ok (ops_width c) o' w e b m \<longrightarrow>
         eff_at o' w e b m = (m * w * 1024) div ar_at o' w e b (m - 1))"
proof -
  from tiler_best2pack_returns[OF assms] obtain best' n' area' where
    ret: "tiler_best2pack c o' w e b n area = Inr (best', n', area')"
    by (metis prod_cases3)
  from tiler_best2pack_post[OF ret] obtain L where L: "0 \<le> L" "L \<le> n \<or> L = 0"
    and inv: "b2p_inv (ops_width c) o' w e b n area L best' n' area'"
    and stop: "\<not> (L < n \<and> blk_ok (ops_width c) o' w e b L)" by blast
  from inv have b0: "0 \<le> best'" and ro: "run_ok (ops_width c) o' w e b L"
    and le: "\<forall>j. 1 \<le> j \<and> j \<le> L \<longrightarrow> eff_at o' w e b j \<le> best'"
    and rest: "if best' = 0 then n' = n \<and> area' = area
       else 1 \<le> n' \<and> n' \<le> L \<and> eff_at o' w e b n' = best' \<and> area' = ar_at o' w e b (n' - 1) \<and>
            (\<forall>j. 1 \<le> j \<and> j < n' \<longrightarrow> eff_at o' w e b j < best')"
    unfolding b2p_inv_def by auto
  have c1: "\<forall>m. 1 \<le> m \<and> m \<le> n \<and> run_ok (ops_width c) o' w e b m \<longrightarrow> eff_at o' w e b m \<le> best'"
  proof (intro allI impI)
    fix m assume m: "1 \<le> m \<and> m \<le> n \<and> run_ok (ops_width c) o' w e b m"
    have "m \<le> L"
    proof (rule ccontr)
      assume "\<not> m \<le> L"
      then have "L < m" by simp
      with m L(1) have "blk_ok (ops_width c) o' w e b L" unfolding run_ok_iff by blast
      moreover from \<open>L < m\<close> m have "L < n" by simp
      ultimately show False using stop by simp
    qed
    with le m show "eff_at o' w e b m \<le> best'" by blast
  qed
  have c2: "0 < best' \<longrightarrow> 1 \<le> n' \<and> n' \<le> n \<and> run_ok (ops_width c) o' w e b n' \<and>
             eff_at o' w e b n' = best' \<and> area' = ar_at o' w e b (n' - 1) \<and>
             (\<forall>j. 1 \<le> j \<and> j < n' \<longrightarrow> eff_at o' w e b j < best')"
  proof
    assume p: "0 < best'"
    with rest have r: "eff_at o' w e b n' = best'"
      "area' = ar_at o' w e b (n' - 1)" "\<forall>j. 1 \<le> j \<and> j < n' \<longrightarrow> eff_at o' w e b j < best'"
      by auto
    with tiler_best2pack_run[OF ret p]
    show "1 \<le> n' \<and> n' \<le> n \<and> run_ok (ops_width c) o' w e b n' \<and>
             eff_at o' w e b n' = best' \<and> area' = ar_at o' w e b (n' - 1) \<and>
             (\<forall>j. 1 \<le> j \<and> j < n' \<longrightarrow> eff_at o' w e b j < best')" by simp
  qed
  have c3: "\<not> 0 < best' \<longrightarrow> best' = 0 \<and> n' = n \<and> area' = area"
    using tiler_best2pack_unclaimed[OF ret] by blast
  have c4: "\<not> blk_ok (ops_width c) o' w e b 0 \<longrightarrow> best' = 0 \<and> n' = n \<and> area' = area"
  proof
    assume nb: "\<not> blk_ok (ops_width c) o' w e b 0"
    have "\<not> 0 < best'"
    proof
      assume "0 < best'"
      from tiler_best2pack_run[OF ret this] have "blk_ok (ops_width c) o' w e b 0"
        unfolding run_ok_iff by simp
      with nb show False by simp
    qed
    with c3 show "best' = 0 \<and> n' = n \<and> area' = area" by simp
  qed
  have c5: "\<forall>m. 1 \<le> m \<and> m * w * 1024 < 2147483648 \<and> run_ok (ops_width c) o' w e b m \<longrightarrow>
         eff_at o' w e b m = (m * w * 1024) div ar_at o' w e b (m - 1)"
  proof (intro allI impI)
    fix m assume m: "1 \<le> m \<and> m * w * 1024 < 2147483648 \<and> run_ok (ops_width c) o' w e b m"
    then have "blk_ok (ops_width c) o' w e b (m - 1)" unfolding run_ok_iff by simp
    then have fit: "o' + (m - 1) * e + w \<le> ops_width c" unfolding blk_ok_def by simp
    from m assms have "0 \<le> o' + (m - 1) * e" by simp
    from ar_at_positive[OF assms(2) assms(1) this fit assms(5)]
    have pos: "0 < ar_at o' w e b (m - 1)" .
    from m assms have "0 \<le> m * w" by simp
    from eff_at_exact[OF this _ pos] m
    show "eff_at o' w e b m = (m * w * 1024) div ar_at o' w e b (m - 1)" by simp
  qed
  from ret c1 c2 c3 c4 c5 show ?thesis by blast
qed

theorem tiler_best2pack_selects_witness:
  "(0::int) < 40 \<and> (0::int) < 64 \<and> (0::int) \<le> 32 \<and> (0::int) \<le> 64 \<and>
   ops_width cfg_256 + 64 \<le> 65536 \<and>
   tiler_best2pack cfg_256 32 40 64 64 2 0 = Inr (426, 2, 192) \<and>
   run_ok (ops_width cfg_256) 32 40 64 64 2 \<and>
   eff_at 32 40 64 64 1 < 426 \<and> eff_at 32 40 64 64 2 = 426 \<and> ar_at 32 40 64 64 (2 - 1) = 192 \<and>
   eff_at 32 40 64 64 2 = (2 * 40 * 1024) div ar_at 32 40 64 64 (2 - 1) \<and>
   \<not> blk_ok (ops_width cfg_256) 200 100 256 64 0 \<and>
   tiler_best2pack cfg_256 200 100 256 64 3 7 = Inr (0, 3, 7)"
proof -
  have w: "ops_width cfg_256 + 64 \<le> 65536" by (simp add: cfg_256_def)
  have h1: "tiler_best2pack cfg_256 32 40 64 64 2 0 = Inr (426, 2, 192)"
    by (simp add: tiler_best2pack_def cfg_256_def best2pack_loop.simps u16_def u32_def s32_id
        c_div_nonneg ALIGN_def Let_def)
  have nb: "\<not> blk_ok (ops_width cfg_256) 200 100 256 64 0"
    by (simp add: blk_ok_def cfg_256_def)
  from tiler_best2pack_selects[of 40 64 32 64 cfg_256 2 0] w h1
  have a: "run_ok (ops_width cfg_256) 32 40 64 64 2 \<and>
      eff_at 32 40 64 64 1 < 426 \<and> eff_at 32 40 64 64 2 = 426 \<and>
      192 = ar_at 32 40 64 64 (2 - 1) \<and>
      eff_at 32 40 64 64 2 = (2 * 40 * 1024) div ar_at 32 40 64 64 (2 - 1)"
    by auto
  from tiler_best2pack_selects[of 100 64 200 256 cfg_256 3 7] w nb
  have b: "tiler_best2pack cfg_256 200 100 256 64 3 7 = Inr (0, 3, 7)"
    by auto
  from w h1 a nb b show ?thesis by simp
qed

subsection \<open>Claim C3: uniform stride\<close>

text \<open>
  The specification defines the row stride of a run as \<open>align(o + (m - 1) * e + w, b)\<close>. In
  a container 256 slots wide, for \<open>o = 32\<close>, \<open>w = 40\<close>, \<open>e = 64\<close>, \<open>b = 64\<close>, the
  code claims a run of two blocks, and for the second one that value is 192, not
  \<open>align(o + w, b) = 128\<close>.
\<close>

theorem tiler_best2pack_stride_counterexample:
  "tiler_best2pack cfg_256 32 40 64 64 2 0 = Inr (426, 2, 192) \<and>
   ALIGN (32 + 1 * 64 + 40) 64 \<noteq> ALIGN (32 + 40) 64"
  by (simp add: tiler_best2pack_def cfg_256_def best2pack_loop.simps u16_def u32_def s32_id
      c_div_nonneg ALIGN_def Let_def)

text \<open>
  Claim C3, as the code has it. When \<open>tiler_best2pack\<close> claims a run (its efficiency
  is not zero), every block \<open>k\<close> of the run fits within the container width,
  \<open>o + k * e + w \<le> ops->width\<close>, and has the stride of a single block, where the stride
  of a block is measured from the start of that block, as the comment in the source
  defines it (the aligned end minus the start): the area width
  \<open>align(o + k * e + w, b)\<close>, as stored in 16 bits, less \<open>o + k * e\<close>, aligned to
  \<open>b\<close>, equals \<open>align(o + w, b)\<close>.
\<close>

theorem tiler_best2pack_uniform_stride:
  assumes "tiler_best2pack c o' w e b n area = Inr (best', n', area')"
    and "0 < best'" and "0 \<le> k" and "k < n'"
  shows "o' + k * e + w \<le> ops_width c \<and>
         ALIGN (u16 (ALIGN (o' + k * e + w) b) - (o' + k * e)) b = u16 (ALIGN (o' + w) b)"
proof -
  from tiler_best2pack_run[OF assms(1,2)] have "run_ok (ops_width c) o' w e b n'" by simp
  with assms(3,4) have "blk_ok (ops_width c) o' w e b k" unfolding run_ok_iff by auto
  then show ?thesis unfolding blk_ok_def ar_at_def by (simp add: algebra_simps)
qed

theorem tiler_best2pack_uniform_stride_witness:
  "tiler_best2pack cfg_256 32 40 64 64 2 0 = Inr (426, 2, 192) \<and> (0::int) < 426 \<and>
   (0::int) \<le> 1 \<and> (1::int) < 2 \<and>
   32 + 1 * 64 + 40 \<le> ops_width cfg_256 \<and>
   ALIGN (u16 (ALIGN (32 + 1 * 64 + 40) 64) - (32 + 1 * 64)) 64 = u16 (ALIGN (32 + 40) 64)"
proof -
  have h1: "tiler_best2pack cfg_256 32 40 64 64 2 0 = Inr (426, 2, 192)"
    by (simp add: tiler_best2pack_def cfg_256_def best2pack_loop.simps u16_def u32_def s32_id
        c_div_nonneg ALIGN_def Let_def)
  from tiler_best2pack_uniform_stride[OF h1, of 1] h1 show ?thesis by simp
qed

section \<open>The two scans of \<open>nv12_separate\<close>\<close>

lemma nv12_separate_scans:
  "scan_8 c o' w a n area = Inr (eff1, n1, area1) \<Longrightarrow>
   scan_16 c o' w a n1 area1 = Inr (eff2, n2, area2) \<Longrightarrow>
   nv12_separate c o' w a n area = Inr (n2, u16 (area2 * 3))"
  by (simp add: nv12_separate_def scan_8_def scan_16_def)

subsection \<open>Claim C4: the count of the separate plan\<close>

text \<open>
  \<open>nv12_separate\<close> drops the efficiencies that its scans return, so a scan that
  claims nothing leaves the count as it was. For \<open>o = 200\<close>, \<open>w = 100\<close>,
  \<open>a = 256\<close> and \<open>n = 3\<close> in a container 256 slots wide, neither plane can hold a
  single block, and the count returned is 3, not zero.
\<close>

theorem nv12_separate_nonzero_counterexample:
  "map_sum id fst (nv12_separate cfg_256 200 100 256 3 7) = Inr 3 \<and>
   \<not> blk_ok (ops_width cfg_256) 200 100 (u16 (ALIGN 100 256)) (u16 (band_8 cfg_256)) 0 \<and>
   \<not> blk_ok (ops_width cfg_256) (200 div 2) ((100 + 1) div 2) (u16 (ALIGN 100 256 div 2))
       (u16 (band_16 cfg_256)) 0"
  by (simp add: nv12_separate_def tiler_best2pack_def cfg_256_def best2pack_loop.simps u16_def
      u32_def s32_id c_div_nonneg ALIGN_def Let_def blk_ok_def ar_at_def)

text \<open>
  Claim C4, as the code has it. The count returned by \<open>nv12_separate\<close> is the count
  left by the 16-bit scan, which runs with the count left by the 8-bit scan as its
  bound. When both scans claim a run, the count returned is at least 1, at most the
  count of the 8-bit scan, which is at most \<open>n\<close>, and that many blocks pass the loop
  condition of both scans: it is achievable on both planes. A scan that claims
  nothing leaves the count unchanged, and for \<open>n \<ge> 1\<close> the count returned is never
  zero.
\<close>

theorem nv12_separate_common_count:
  assumes s8: "scan_8 c o' w a n area = Inr (eff1, n1, area1)"
    and s16: "scan_16 c o' w a n1 area1 = Inr (eff2, n2, area2)"
  shows "nv12_separate c o' w a n area = Inr (n2, u16 (area2 * 3)) \<and>
         (0 < eff1 \<and> 0 < eff2 \<longrightarrow>
            1 \<le> n2 \<and> n2 \<le> n1 \<and> n1 \<le> n \<and>
            run_ok (ops_width c) o' w (u16 (ALIGN w a)) (u16 (band_8 c)) n2 \<and>
            run_ok (ops_width c) (o' div 2) ((w + 1) div 2) (u16 (ALIGN w a div 2))
              (u16 (band_16 c)) n2) \<and>
         (\<not> 0 < eff1 \<longrightarrow> n1 = n) \<and> (\<not> 0 < eff2 \<longrightarrow> n2 = n1) \<and>
         (1 \<le> n \<longrightarrow> 1 \<le> n2)"
proof -
  have r: "nv12_separate c o' w a n area = Inr (n2, u16 (area2 * 3))"
    using nv12_separate_scans[OF s8 s16] .
  have u1: "\<not> 0 < eff1 \<longrightarrow> n1 = n"
    using tiler_best2pack_unclaimed[OF s8[unfolded scan_8_def]] by blast
  have u2: "\<not> 0 < eff2 \<longrightarrow> n2 = n1"
    using tiler_best2pack_unclaimed[OF s16[unfolded scan_16_def]] by blast
  have p1: "0 < eff1 \<longrightarrow> 1 \<le> n1 \<and> n1 \<le> n \<and>
      run_ok (ops_width c) o' w (u16 (ALIGN w a)) (u16 (band_8 c)) n1"
    using tiler_best2pack_run[OF s8[unfolded scan_8_def]] by blast
  have p2: "0 < eff2 \<longrightarrow> 1 \<le> n2 \<and> n2 \<le> n1 \<and>
      run_ok (ops_width c) (o' div 2) ((w + 1) div 2) (u16 (ALIGN w a div 2)) (u16 (band_16 c)) n2"
    using tiler_best2pack_run[OF s16[unfolded scan_16_def]] by blast
  have both: "0 < eff1 \<and> 0 < eff2 \<longrightarrow>
            1 \<le> n2 \<and> n2 \<le> n1 \<and> n1 \<le> n \<and>
            run_ok (ops_width c) o' w (u16 (ALIGN w a)) (u16 (band_8 c)) n2 \<and>
            run_ok (ops_width c) (o' div 2) ((w + 1) div 2) (u16 (ALIGN w a div 2))
              (u16 (band_16 c)) n2"
  proof
    assume e: "0 < eff1 \<and> 0 < eff2"
    with p1 p2 have a: "1 \<le> n2" "n2 \<le> n1" "n1 \<le> n"
      and r1: "run_ok (ops_width c) o' w (u16 (ALIGN w a)) (u16 (band_8 c)) n1"
      and r2: "run_ok (ops_width c) (o' div 2) ((w + 1) div 2) (u16 (ALIGN w a div 2))
          (u16 (band_16 c)) n2" by auto
    from r1 a(2) have "run_ok (ops_width c) o' w (u16 (ALIGN w a)) (u16 (band_8 c)) n2"
      unfolding run_ok_iff by auto
    with a r2 show "1 \<le> n2 \<and> n2 \<le> n1 \<and> n1 \<le> n \<and>
            run_ok (ops_width c) o' w (u16 (ALIGN w a)) (u16 (band_8 c)) n2 \<and>
            run_ok (ops_width c) (o' div 2) ((w + 1) div 2) (u16 (ALIGN w a div 2))
              (u16 (band_16 c)) n2" by simp
  qed
  have pos: "1 \<le> n \<longrightarrow> 1 \<le> n2"
  proof
    assume n: "1 \<le> n"
    have "1 \<le> n1" using p1 u1 n by (cases "0 < eff1") auto
    then show "1 \<le> n2" using p2 u2 by (cases "0 < eff2") auto
  qed
  from r u1 u2 both pos show ?thesis by blast
qed

theorem nv12_separate_common_count_witness:
  "scan_8 cfg_256 32 40 64 2 0 = Inr (426, 2, 192) \<and>
   scan_16 cfg_256 32 40 64 2 192 = Inr (320, 1, 64) \<and>
   nv12_separate cfg_256 32 40 64 2 0 = Inr (1, 192) \<and>
   run_ok (ops_width cfg_256) 32 40 (u16 (ALIGN 40 64)) (u16 (band_8 cfg_256)) 1 \<and>
   run_ok (ops_width cfg_256) (32 div 2) ((40 + 1) div 2) (u16 (ALIGN 40 64 div 2))
     (u16 (band_16 cfg_256)) 1"
proof -
  have h1: "scan_8 cfg_256 32 40 64 2 0 = Inr (426, 2, 192)"
    by (simp add: scan_8_def tiler_best2pack_def cfg_256_def best2pack_loop.simps u16_def u32_def
        s32_id c_div_nonneg ALIGN_def Let_def)
  have h2: "scan_16 cfg_256 32 40 64 2 192 = Inr (320, 1, 64)"
    by (simp add: scan_16_def tiler_best2pack_def cfg_256_def best2pack_loop.simps u16_def u32_def
        s32_id c_div_nonneg ALIGN_def Let_def)
  have u: "u16 (64 * 3) = 192" by (simp add: u16_def)
  from nv12_separate_common_count[OF h1 h2] h1 h2 u show ?thesis by simp
qed

section \<open>The pattern generators and the division in \<open>nv12_eff\<close>\<close>

text \<open>
  The generators divide by \<open>a\<close> and, in \<open>nv12_C\<close>, by \<open>e = ALIGN(w, a)\<close> as stored
  in 16 bits. Neither is zero under the assumptions the source states for them, as
  long as the aligned width fits into 16 bits.
\<close>

lemma generator_divisors:
  assumes "2 \<le> a" and "0 < w" and "w + a \<le> 65536"
  shows "a \<noteq> 0 \<and> 0 < u16 (ALIGN w a)"
proof -
  from assms have a: "0 < a" by simp
  from ALIGN_ge[OF a, of w] ALIGN_lt[OF a, of w] assms
  have "u16 (ALIGN w a) = ALIGN w a" by (intro u16_id) auto
  with ALIGN_ge[OF a, of w] assms show ?thesis by simp
qed

subsection \<open>Claim C6: containment\<close>

text \<open>
  Claim C6 says that every pair a generator places lies inside the area the generator
  reports. \<open>nv12_C\<close> divides with C's \<open>/\<close>, which rounds towards zero: when
  \<open>min(...) / 3 - w\<close> is negative but more than \<open>- e\<close>, the quotient is 0 and the
  count \<open>m\<close> is 1, and the loop then places a pair without comparing it with the area,
  as the loops of \<open>nv12_A\<close>, \<open>nv12_B\<close> and \<open>nv12_D\<close> do. For \<open>o = 16\<close>,
  \<open>w = 56\<close>, \<open>a = 32\<close>, \<open>n = 2\<close> and the 64-slot area, \<open>nv12_C\<close> returns two pairs;
  the first has its 8-bit block at 16 and its 16-bit block at 40, and neither
  \<open>16 + 56\<close> nor \<open>40 + 28\<close> is at most 64. \<open>nv12_together\<close> returns this packing.
\<close>

theorem nv12_C_escapes_area:
  "nv12_C cfg_256 16 56 32 2 = (2, 64, [16, 40, 240, 248]) \<and>
   \<not> (16 + 56 \<le> (64 :: int)) \<and> \<not> (40 + (56 + 1) div 2 \<le> (64 :: int)) \<and>
   map_option t_count (nv12_together cfg_256 16 56 32 2) = Some 2 \<and>
   map_option t_copied (nv12_together cfg_256 16 56 32 2) = Some (Some [16, 40, 240, 248])"
  by (simp add: nv12_C_def cfg_256_def nv12_C_loop.simps u16_def u8_def ALIGN_def c_div_def Let_def
       nv12_together_def try_generators_def try_generator_def nv12_A_def nv12_A_outer.simps
       nv12_revA_def nv12_B_def special_packings.simps packings_def p_end_def try_D_def)

subsection \<open>Claim C5: the selection of \<open>nv12_together\<close>\<close>











text \<open>The two entries, read off the table.\<close>

lemma satisfactory_entries:
  "satisfactory o' w a 0 = (a \<le> 4 \<and> o' + w + ALIGN (2 - o') a \<le> 2 + 4)"
  "satisfactory o' w a 23 = (a \<le> 4 \<and> o' + w + ALIGN (0 - o') a \<le> 0 + 12)"
  by (simp_all add: satisfactory_def packings_def)

lemma replaced_by_entries:
  "replaced_by n 0 s = s\<lparr>n_best := min 9 n, sel_area := 64,
     p_best := Some (drop 5 packings), p_src := PACK_special\<rparr>"
  "replaced_by n 23 s = s\<lparr>n_best := min 3 n, sel_area := 64,
     p_best := Some (drop 28 packings), p_src := PACK_special\<rparr>"
  "take 18 (drop 5 packings) = [2, 33, 6, 35, 10, 37, 14, 39, 18, 41, 46, 23, 50, 25, 54, 27, 58, 29]"
  "take 6 (drop 28 packings) = [0, 32, 12, 38, 48, 24]"
  by (simp_all add: replaced_by_def packings_def)





subsection \<open>Claim C10: the divisor of \<open>nv12_eff\<close>\<close>

text \<open>
  Claim C10 says that \<open>reserve_nv12\<close> never calls \<open>nv12_eff\<close> with a zero count.
  \<open>nv12_together\<close> returns zero when nothing fits, which \<open>reserve_nv12\<close> itself
  expects (it tests \<open>n_t\<close> before \<open>lay_nv12\<close>), but only after it has passed \<open>n_t\<close>
  to \<open>nv12_eff\<close>. For \<open>w = 32\<close>, \<open>a = 32\<close>, \<open>o = 2\<close> slots no generator places a
  pair, and a request that is normalised to these values divides by zero: the scans of
  \<open>nv12_separate\<close> return, with one pair, and the fault is that of \<open>nv12_eff\<close> with
  the count zero.
\<close>

theorem reserve_nv12_divides_by_zero:
  "map_option t_count (nv12_together cfg_256 2 32 32 1) = Some 0 \<and>
   reserve_nv12 cfg_256 ops_accept
      1 2048 8 2048 128 0 True 0 0 [] world_0 = Some (Inl DivisionByZero) \<and>
   nv12_separate cfg_256 2 32 32 1 0 = Inr (1, 192) \<and>
   nv12_eff 0 32 64 1 = Inl DivisionByZero"
  by (simp add: nv12_C_def cfg_256_def nv12_C_loop.simps u16_def u8_def u32_def s32_id ALIGN_def
       c_div_def DIV_ROUND_UP_def Let_def
       nv12_together_def try_generators_def try_generator_def nv12_A_def nv12_A_outer.simps
       nv12_A_inner.simps nv12_D_def nv12_D_loop.simps
       nv12_revA_def nv12_B_def special_packings.simps packings_def p_end_def try_D_def
       reserve_nv12_def ops_accept_def sample_ops_def nv12_loop.simps plan_together_def separately_first_def
       nv12_eff_def nv12_separate_def tiler_best2pack_def best2pack_loop.simps TILFMT_8BIT_def)

text \<open>
  The second product of \<open>nv12_eff\<close> wraps before it is divided: for \<open>n = 51\<close>
  pairs of width 64250 the exact value \<open>1024 * 51 * 96375\<close> exceeds \<open>2^31\<close>.
\<close>

lemma nv12_eff_wraps:
  "nv12_eff 51 64250 32 52 = Inr 291499680 \<and>
   2147483648 < 1024 * 51 * ((64250 * 3 + 1) div 2 :: int)"
  by (simp add: nv12_eff_def DIV_ROUND_UP_def u32_def s32_def c_div_nonneg)

section \<open>The orchestration\<close>

subsection \<open>Claim C1: the separate-path commit\<close>

text \<open>
  Claim C1. In the separate-path commit of \<open>reserve_nv12\<close>, whatever the allocator
  answers: the 16-bit \<open>lay_2d\<close> is called only if the 8-bit \<open>lay_2d\<close> has
  succeeded; when either call fails or the two counts differ, the temporary list, with
  every area laid in the attempt, is handed to \<open>release\<close>, the result is \<open>- 1\<close> and
  nothing is merged into the group's list; the areas are merged by \<open>add_reserved\<close>
  only when both calls succeed with equal counts. The temporary list is empty
  afterwards in every case, so no 8-bit area is left without its 16-bit area.
\<close>

theorem reserve_separately_all_or_nothing:
  assumes l8: "lay_2d ops (alloc wd) TILFMT_8BIT n_s w h band a o' = (res8, areas8, s1)"
    and l16: "lay_2d ops s1 TILFMT_16BIT n_s ((w + 1) div 2) h (band div 2) (a div 2) (o' div 2)
                = (res16, areas16, s2)"
    and r: "reserve_separately ops n_s w h band a o' wd = (res, wd')"
  shows "(res8 < 0 \<longrightarrow>
            res = - 1 \<and>
            trace wd' = trace wd @ [E_lay_2d TILFMT_8BIT n_s w h band a o',
                                    E_release (reserved wd @ areas8)] \<and>
            released wd' = released wd @ reserved wd @ areas8 \<and>
            gi_reserved wd' = gi_reserved wd \<and> reserved wd' = []) \<and>
         (0 \<le> res8 \<and> (res16 < 0 \<or> res8 \<noteq> res16) \<longrightarrow>
            res = - 1 \<and>
            trace wd' = trace wd @ [E_lay_2d TILFMT_8BIT n_s w h band a o',
                                    E_lay_2d TILFMT_16BIT n_s ((w + 1) div 2) h (band div 2)
                                      (a div 2) (o' div 2),
                                    E_release (reserved wd @ areas8 @ areas16)] \<and>
            released wd' = released wd @ reserved wd @ areas8 @ areas16 \<and>
            gi_reserved wd' = gi_reserved wd \<and> reserved wd' = []) \<and>
         (0 \<le> res8 \<and> 0 \<le> res16 \<and> res8 = res16 \<longrightarrow>
            res = res8 \<and>
            trace wd' = trace wd @ [E_lay_2d TILFMT_8BIT n_s w h band a o',
                                    E_lay_2d TILFMT_16BIT n_s ((w + 1) div 2) h (band div 2)
                                      (a div 2) (o' div 2),
                                    E_add_reserved (reserved wd @ areas8 @ areas16)] \<and>
            gi_reserved wd' = gi_reserved wd @ reserved wd @ areas8 @ areas16 \<and>
            released wd' = released wd \<and> reserved wd' = [])"
proof (intro conjI impI)
  assume "res8 < 0"
  with l8 r have "(res, wd') = (- 1, release_local ops
      (wd\<lparr>alloc := s1, reserved := reserved wd @ areas8,
          trace := trace wd @ [E_lay_2d TILFMT_8BIT n_s w h band a o']\<rparr>))"
    by (simp add: reserve_separately_def lay_2d_local_def)
  then show "res = - 1"
    "trace wd' = trace wd @ [E_lay_2d TILFMT_8BIT n_s w h band a o',
                                    E_release (reserved wd @ areas8)]"
    "released wd' = released wd @ reserved wd @ areas8"
    "gi_reserved wd' = gi_reserved wd" "reserved wd' = []"
    by (simp_all add: release_local_def)
next
  assume c: "0 \<le> res8 \<and> (res16 < 0 \<or> res8 \<noteq> res16)"
  with l8 l16 r have "(res, wd') = (- 1, release_local ops
      (wd\<lparr>alloc := s2, reserved := reserved wd @ areas8 @ areas16,
          trace := trace wd @ [E_lay_2d TILFMT_8BIT n_s w h band a o',
             E_lay_2d TILFMT_16BIT n_s ((w + 1) div 2) h (band div 2) (a div 2) (o' div 2)]\<rparr>))"
    by (auto simp add: reserve_separately_def lay_2d_local_def)
  then show "res = - 1"
    "trace wd' = trace wd @ [E_lay_2d TILFMT_8BIT n_s w h band a o',
        E_lay_2d TILFMT_16BIT n_s ((w + 1) div 2) h (band div 2) (a div 2) (o' div 2),
        E_release (reserved wd @ areas8 @ areas16)]"
    "released wd' = released wd @ reserved wd @ areas8 @ areas16"
    "gi_reserved wd' = gi_reserved wd" "reserved wd' = []"
    by (simp_all add: release_local_def)
next
  assume c: "0 \<le> res8 \<and> 0 \<le> res16 \<and> res8 = res16"
  with l8 l16 r have "(res, wd') = (res8, add_reserved_local ops
      (wd\<lparr>alloc := s2, reserved := reserved wd @ areas8 @ areas16,
          trace := trace wd @ [E_lay_2d TILFMT_8BIT n_s w h band a o',
             E_lay_2d TILFMT_16BIT n_s ((w + 1) div 2) h (band div 2) (a div 2) (o' div 2)]\<rparr>))"
    by (auto simp add: reserve_separately_def lay_2d_local_def)
  then show "res = res8"
    "trace wd' = trace wd @ [E_lay_2d TILFMT_8BIT n_s w h band a o',
        E_lay_2d TILFMT_16BIT n_s ((w + 1) div 2) h (band div 2) (a div 2) (o' div 2),
        E_add_reserved (reserved wd @ areas8 @ areas16)]"
    "gi_reserved wd' = gi_reserved wd @ reserved wd @ areas8 @ areas16"
    "released wd' = released wd" "reserved wd' = []"
    by (simp_all add: add_reserved_local_def)
qed

theorem reserve_separately_all_or_nothing_witness:
  "lay_2d ops_16_fails (alloc world_0) TILFMT_8BIT 2 3 2 64 4 0 = (2, [0], 1) \<and>
   lay_2d ops_16_fails 1 TILFMT_16BIT 2 ((3 + 1) div 2) 2 (64 div 2) (4 div 2) (0 div 2)
      = (- 12, [], 2) \<and>
   fst (reserve_separately ops_16_fails 2 3 2 64 4 0 world_0) = - 1 \<and>
   released (snd (reserve_separately ops_16_fails 2 3 2 64 4 0 world_0)) = [0] \<and>
   gi_reserved (snd (reserve_separately ops_16_fails 2 3 2 64 4 0 world_0)) = [] \<and>
   reserved (snd (reserve_separately ops_16_fails 2 3 2 64 4 0 world_0)) = []"
proof -
  have h8: "lay_2d ops_16_fails (alloc world_0) TILFMT_8BIT 2 3 2 64 4 0 = (2, [0], 1)"
    by (simp add: ops_16_fails_def sample_ops_def world_0_def TILFMT_8BIT_def)
  have h16: "lay_2d ops_16_fails 1 TILFMT_16BIT 2 ((3 + 1) div 2) 2 (64 div 2) (4 div 2) (0 div 2)
      = (- 12, [], 2)"
    by (simp add: ops_16_fails_def sample_ops_def TILFMT_8BIT_def TILFMT_16BIT_def)
  have hr: "reserve_separately ops_16_fails 2 3 2 64 4 0 world_0
      = (fst (reserve_separately ops_16_fails 2 3 2 64 4 0 world_0),
         snd (reserve_separately ops_16_fails 2 3 2 64 4 0 world_0))" by simp
  have w0: "reserved world_0 = []" "released world_0 = []" "gi_reserved world_0 = []"
    by (simp_all add: world_0_def)
  from reserve_separately_all_or_nothing[OF h8 h16 hr] h8 h16 w0 show ?thesis by simp
qed

subsection \<open>What the loops leave behind\<close>

lemma grows_refl: "grows wd wd"
  by (simp add: grows_def)

lemma grows_trans: "grows a b \<Longrightarrow> grows b c \<Longrightarrow> grows a c"
  unfolding grows_def by (meson prefix_order.trans)

lemma grows_logged: "grows wd (logged ev wd)"
  by (simp add: grows_def logged_def)

lemma grows_length: "grows wd wd' \<Longrightarrow> length (trace wd) \<le> length (trace wd')"
  unfolding grows_def by (simp add: prefix_length_le)

lemma reserve_separately_grows:
  "reserve_separately ops n_s w h band a o' wd = (res, wd') \<Longrightarrow> grows wd wd'"
  by (auto simp: reserve_separately_def lay_2d_local_def release_local_def add_reserved_local_def
      grows_def split: prod.splits if_splits)

lemma lay_nv12_group_grows:
  "lay_nv12_group ops n area w h p wd = (res, wd') \<Longrightarrow> grows wd wd'"
  by (auto simp: lay_nv12_group_def grows_def split: prod.splits)

lemma nv12_loop_grows_aux:
  assumes "nv12_loop c0 ops0 n0 w0 h0 band0 a0 o0 ct0 i0 res0 area_s0 area_t0 packing0 wd0 = Some y0"
  shows "\<forall>wd'. y0 = Inr wd' \<longrightarrow> grows wd0 wd'"
proof (rule nv12_loop.raw_induct[where P = "\<lambda>c ops n w h band a o' ct i res area_s area_t packing wd y.
             \<forall>wd'. y = Inr wd' \<longrightarrow> grows wd wd'", OF _ assms], goal_cases)
  case (1 loop c ops n w h band a o' ct i res area_s area_t packing wd y)
  show ?case
  proof (intro allI impI)
  fix wd' assume y: "y = Inr wd'"
  show "grows wd wd'"
  proof (cases "u32 i < n \<and> 0 \<le> res")
    case False
    with 1(2) y show "grows wd wd'" by (simp add: grows_refl)
  next
    case True
    from 1(2) True y obtain n_s area_s1 where
      sep: "nv12_separate c o' w a (u16 (u32 (n - i))) area_s = Inr (n_s, area_s1)"
      by (cases "nv12_separate c o' w a (u16 (u32 (n - i))) area_s") auto
    from 1(2) True sep obtain n_t area_t1 packing1 where
      pt: "plan_together c o' w a (u16 (u32 (n - i))) ct area_t packing = Some (n_t, area_t1, packing1)"
      by (cases "plan_together c o' w a (u16 (u32 (n - i))) ct area_t packing") auto
    from 1(2) True sep pt y obtain separately where
      sf: "separately_first ct n_s n_t w area_s1 area_t1 (u16 (u32 (n - i))) = Inr separately"
      by (cases "separately_first ct n_s n_t w area_s1 area_t1 (u16 (u32 (n - i)))") auto
    obtain res1 wd1 where r1: "(if separately then reserve_separately ops n_s w h band a o' wd
                              else (- 1, wd)) = (res1, wd1)"
      by (cases "(if separately then reserve_separately ops n_s w h band a o' wd else (- 1, wd))") auto
    obtain res2 wd2 where r2: "(if res1 < 0 \<and> ct \<and> n_t \<noteq> 0
                                   then lay_nv12_group ops n_t area_t1 w h packing1 wd1
                                   else (res1, wd1)) = (res2, wd2)"
      by (cases "(if res1 < 0 \<and> ct \<and> n_t \<noteq> 0
                                   then lay_nv12_group ops n_t area_t1 w h packing1 wd1
                                   else (res1, wd1))") auto
    from 1(2) True sep pt sf r1 r2
    have rec: "loop c ops n w h band a o' ct (i + res2) res2 area_s1 area_t1 packing1 wd2 = Some y"
      by simp
    from 1(1)[OF rec] y have g2: "grows wd2 wd'" by simp
    from r1 have g0: "grows wd wd1"
      by (auto split: if_splits simp: grows_refl dest: reserve_separately_grows)
    from r2 have g1: "grows wd1 wd2"
      by (auto split: if_splits simp: grows_refl dest: lay_nv12_group_grows)
    from g0 g1 g2 show "grows wd wd'" by (blast intro: grows_trans)
  qed
  qed
qed

lemma nv12_loop_grows:
  "nv12_loop c ops n w h band a o' ct i res area_s area_t packing wd = Some (Inr wd') \<Longrightarrow>
   grows wd wd'"
  using nv12_loop_grows_aux by blast

lemma commits_only_refl: "commits_only fmt w h band a o' wd wd"
  by (simp add: commits_only_def commit_events_def)

lemma commits_only_trans:
  assumes "commits_only fmt w h band a o' wd1 wd2" and "commits_only fmt w h band a o' wd2 wd3"
  shows "commits_only fmt w h band a o' wd1 wd3"
proof -
  from assms(1) obtain t1 where t1: "trace wd2 = trace wd1 @ t1" "commit_events fmt w h band a o' t1"
    unfolding commits_only_def by blast
  from assms(2) obtain t2 where t2: "trace wd3 = trace wd2 @ t2" "commit_events fmt w h band a o' t2"
    unfolding commits_only_def by blast
  from t1 t2 have "trace wd3 = trace wd1 @ (t1 @ t2) \<and> commit_events fmt w h band a o' (t1 @ t2)"
    by (simp add: commit_events_def)
  moreover from assms have "prefix (gi_reserved wd1) (gi_reserved wd3)"
    unfolding commits_only_def by (meson prefix_order.trans)
  ultimately show ?thesis using assms unfolding commits_only_def by auto
qed

lemma lay_2d_group_commits:
  "2 \<le> k \<Longrightarrow> lay_2d_group ops fmt k w h band a o' wd = (r, wd') \<Longrightarrow>
   commits_only fmt w h band a o' wd wd'"
  by (auto simp: lay_2d_group_def commits_only_def commit_events_def split: prod.splits)

lemma blocks_retry_commits:
  "blocks_retry ops fmt w h band a o' n_try res wd = (res', wd') \<Longrightarrow>
   commits_only fmt w h band a o' wd wd'"
proof (induction ops fmt w h band a o' n_try res wd rule: blocks_retry.induct)
  case (1 ops fmt w h band a o' n_try res wd)
  show ?case
  proof (cases "1 < n_try")
    case False
    with "1.prems" show ?thesis
      by (simp add: blocks_retry.simps[of ops fmt w h band a o' n_try] commits_only_refl)
  next
    case True
    obtain r wd1 where l: "lay_2d_group ops fmt n_try w h band a o' wd = (r, wd1)"
      by (cases "lay_2d_group ops fmt n_try w h band a o' wd") auto
    from True l have c1: "commits_only fmt w h band a o' wd wd1"
      by (intro lay_2d_group_commits[of n_try]) auto
    show ?thesis
    proof (cases "0 \<le> u32 r")
      case t: True
      with "1.prems" True l have "wd' = wd1"
        by (simp add: blocks_retry.simps[of ops fmt w h band a o' n_try])
      with c1 show ?thesis by simp
    next
      case f: False
      with "1.prems" True l have
        "blocks_retry ops fmt w h band a o' (u16 (n_try - 1)) (u32 r) wd1 = (res', wd')"
        by (simp add: blocks_retry.simps[of ops fmt w h band a o' n_try])
      from "1.IH"[OF True l[symmetric] f this] c1 show ?thesis
        by (blast intro: commits_only_trans)
    qed
  qed
qed

lemma blocks_loop_commits_aux:
  assumes "blocks_loop c0 ops0 n0 fmt0 offs0 w0 h0 band0 a0 o0 e0 i0 res0 wd0 = Some y0"
  shows "\<forall>wd'. y0 = Inr wd' \<longrightarrow> commits_only fmt0 w0 h0 band0 a0 o0 wd0 wd'"
proof (rule blocks_loop.raw_induct[where P = "\<lambda>c ops n fmt offs w h band a o' e i res wd y.
             \<forall>wd'. y = Inr wd' \<longrightarrow> commits_only fmt w h band a o' wd wd'", OF _ assms], goal_cases)
  case (1 loop c ops n fmt offs w h band a o' e i res wd y)
  show ?case
  proof (intro allI impI)
    fix wd' assume y: "y = Inr wd'"
    show "commits_only fmt w h band a o' wd wd'"
    proof (cases "i < n \<and> 0 \<le> res")
      case False
      with 1(2) y show ?thesis by (simp add: commits_only_refl)
    next
      case True
      from 1(2) True y obtain eff n_try area where b: "tiler_best2pack c (u16 offs) w e band
          (u16 (min (u32 (n - i)) (ops_width c))) 0 = Inr (eff, n_try, area)"
        by (cases "tiler_best2pack c (u16 offs) w e band (u16 (min (u32 (n - i)) (ops_width c))) 0")
           auto
      obtain res1 wd1 where r: "blocks_retry ops fmt w h band a o' n_try (u32 (- 1)) wd = (res1, wd1)"
        by (cases "blocks_retry ops fmt w h band a o' n_try (u32 (- 1)) wd") auto
      from 1(2) True b r
      have "loop c ops n fmt offs w h band a o' e (u32 (i + res1)) res1 wd1 = Some y"
        by simp
      from 1(1)[OF this] y blocks_retry_commits[OF r] show ?thesis
        by (blast intro: commits_only_trans)
    qed
  qed
qed

lemma blocks_loop_commits:
  "blocks_loop c ops n fmt offs w h band a o' e i res wd = Some (Inr wd') \<Longrightarrow>
   commits_only fmt w h band a o' wd wd'"
  using blocks_loop_commits_aux by blast

lemma blocks_loop_grows:
  "blocks_loop c ops n fmt offs w h band a o' e i res wd = Some (Inr wd') \<Longrightarrow> grows wd wd'"
  using blocks_loop_commits[of c ops n fmt offs w h band a o' e i res wd wd']
  by (auto simp: commits_only_def grows_def)

subsection \<open>Claim C9: validation\<close>

text \<open>
  \<open>reserve_nv12\<close> returns at once, with no collaborator called, for a request whose
  alignment equals the page size, and for one whose offset is odd, although both
  requests meet the invariant of the data model (positive width, height and count,
  offset below the alignment, alignment at most the page size).
\<close>

lemma logged_trace: "trace (logged ev wd) = trace wd @ [ev]"
  by (simp add: logged_def)

lemma not_grown:
  "grows wd1 wd' \<Longrightarrow> length (trace wd) < length (trace wd1) \<Longrightarrow> logged ev wd' \<noteq> wd"
proof
  assume g: "grows wd1 wd'" and l: "length (trace wd) < length (trace wd1)"
    and e: "logged ev wd' = wd"
  from e have "length (trace wd) = length (trace wd') + 1"
    by (metis length_append_singleton logged_trace Suc_eq_plus1)
  with grows_length[OF g] l show False by simp
qed

theorem reserve_nv12_page_align_counterexample:
  "reserve_nv12 cfg_256 ops_accept 1 2048 8 4096 0 0 True 0 0 [] world_0 = Some (Inr world_0) \<and>
   reserve_nv12 cfg_256 ops_accept 1 2048 8 2048 1 0 True 0 0 [] world_0 = Some (Inr world_0) \<and>
   (0::int) < 2048 \<and> (0::int) < 8 \<and> (0::int) < 1 \<and> (0::int) < 4096 \<and> (1::int) < 2048 \<and>
   4096 \<le> PAGE_SIZE cfg_256 \<and> 2048 \<le> PAGE_SIZE cfg_256"
  by (simp add: reserve_nv12_def cfg_256_def)

text \<open>
  Claim C9, as the code has it. \<open>reserve_nv12\<close> returns with the state untouched (no
  collaborator called) exactly when the width, the height or the count is zero, the
  offset is not below the alignment, the offset is odd, the alignment is not below
  the page size, or the count exceeds half the number of slots of the container.
  \<open>reserve_blocks\<close> does so exactly when the width, the height or the count is zero,
  the alignment exceeds the page size, the offset is not below the alignment, or the
  format is not one of the 8-bit, 16-bit and 32-bit formats.
\<close>

theorem reserve_validation:
  "(reserve_nv12 c ops n width height align offs gid can_together area_s0 area_t0 packing0 wd
      = Some (Inr wd))
   = (width = 0 \<or> height = 0 \<or> n = 0 \<or> offs \<ge> align \<or> offs mod 2 = 1 \<or>
      align \<ge> PAGE_SIZE c \<or> n > ops_width c * ops_height c div 2) \<and>
   (reserve_blocks c ops n fmt width height align offs gid wd = Some (Inr wd))
   = (width = 0 \<or> height = 0 \<or> n = 0 \<or> align > PAGE_SIZE c \<or> offs \<ge> align \<or>
      fmt < TILFMT_8BIT \<or> fmt > TILFMT_32BIT)"
proof
  let ?bad = "width = 0 \<or> height = 0 \<or> n = 0 \<or> offs \<ge> align \<or> offs mod 2 = 1 \<or>
      align \<ge> PAGE_SIZE c \<or> n > ops_width c * ops_height c div 2"
  let ?R = "reserve_nv12 c ops n width height align offs gid can_together area_s0 area_t0 packing0 wd"
  let ?wd1 = "logged (E_analize TILFMT_8BIT width height) wd"
  let ?wd2 = "logged (E_get_gi gid) ?wd1"
  show "(?R = Some (Inr wd)) = ?bad"
  proof (cases ?bad)
    case True
    then show ?thesis by (simp add: reserve_nv12_def)
  next
    case False
    have l1: "?wd1 \<noteq> wd" using not_grown[OF grows_refl, of wd "logged ev wd" for ev]
      by (metis add_diff_cancel_left' length_append_singleton logged_trace diff_Suc_1 n_not_Suc_n)
    have l2: "?wd2 \<noteq> wd"
      by (rule not_grown[OF grows_refl]) (simp add: logged_trace)
    have l3: "logged E_release_gi wd' \<noteq> wd" if "grows ?wd2 wd'" for wd'
      by (rule not_grown[OF that]) (simp add: logged_trace)
    have "?R \<noteq> Some (Inr wd)"
    proof
      assume a: "?R = Some (Inr wd)"
      show False
      proof (cases "analize ops TILFMT_8BIT width height
                (u16 (max (PAGE_SIZE c div min (band_8 c) (band_16 c)) (u16 align))) (u16 offs)")
        case None
        with a False l1 show False by (simp add: reserve_nv12_def)
      next
        case (Some sl)
        obtain w h band a' o' where sl: "sl = (w, h, band, a', o')" by (cases sl) auto
        show False
        proof (cases "get_gi ops gid")
          case f: False
          with a False Some sl l2 show False by (simp add: reserve_nv12_def)
        next
          case t: True
          with a False Some sl obtain wd' where
            lp: "nv12_loop c ops n w h band a' o' can_together 0 0 area_s0 area_t0 packing0 ?wd2
                  = Some (Inr wd')" and e: "logged E_release_gi wd' = wd"
            by (auto simp: reserve_nv12_def split: option.splits sum.splits)
          from l3[OF nv12_loop_grows[OF lp]] e show False by simp
        qed
      qed
    qed
    with False show ?thesis by simp
  qed
next
  let ?bad = "width = 0 \<or> height = 0 \<or> n = 0 \<or> align > PAGE_SIZE c \<or> offs \<ge> align \<or>
      fmt < TILFMT_8BIT \<or> fmt > TILFMT_32BIT"
  let ?R = "reserve_blocks c ops n fmt width height align offs gid wd"
  let ?wd0 = "logged (E_geom fmt) wd"
  let ?wd1 = "logged (E_analize fmt width height) ?wd0"
  let ?wd2 = "logged (E_get_gi gid) ?wd1"
  show "(?R = Some (Inr wd)) = ?bad"
  proof (cases ?bad)
    case True
    then show ?thesis by (simp add: reserve_blocks_def)
  next
    case False
    have l0: "?wd0 \<noteq> wd"
      by (metis length_append_singleton logged_trace n_not_Suc_n)
    have l1: "?wd1 \<noteq> wd"
      by (rule not_grown[OF grows_refl]) (simp add: logged_trace)
    have l2: "?wd2 \<noteq> wd"
      by (rule not_grown[OF grows_refl]) (simp add: logged_trace)
    have l3: "logged E_release_gi wd' \<noteq> wd" if "grows ?wd2 wd'" for wd'
      by (rule not_grown[OF that]) (simp add: logged_trace)
    have "?R \<noteq> Some (Inr wd)"
    proof
      assume a: "?R = Some (Inr wd)"
      obtain slot_w bpp where g: "geom ops fmt = (slot_w, bpp)" by (cases "geom ops fmt") auto
      show False
      proof (cases "u32 (width * bpp * 2) \<le> PAGE_SIZE c")
        case True
        with a False g l0 show False by (simp add: reserve_blocks_def)
      next
        case big: False
        show False
        proof (cases "analize ops fmt width height (u16 align) (u16 offs)")
          case None
          with a False g big l1 show False by (simp add: reserve_blocks_def)
        next
          case (Some sl)
          obtain w h band a' o' where sl: "sl = (w, h, band, a', o')" by (cases sl) auto
          show False
          proof (cases "get_gi ops gid")
            case f: False
            with a False g big Some sl l2 show False by (simp add: reserve_blocks_def)
          next
            case t: True
            with a False g big Some sl obtain wd' where
              lp: "blocks_loop c ops n fmt offs w h band a' o' (u16 (ALIGN w a')) 0 0 ?wd2
                    = Some (Inr wd')"
              and e: "logged E_release_gi wd' = wd"
              by (auto simp: reserve_blocks_def split: option.splits sum.splits)
            from l3[OF blocks_loop_grows[OF lp]] e show False by simp
          qed
        qed
      qed
    qed
    with False show ?thesis by simp
  qed
qed

theorem reserve_validation_witness:
  "reserve_nv12 cfg_256 ops_accept 1 2048 8 2048 128 0 True 0 0 [] world_0 \<noteq> Some (Inr world_0) \<and>
   reserve_nv12 cfg_256 ops_accept 1 2048 8 2048 129 0 True 0 0 [] world_0 = Some (Inr world_0) \<and>
   reserve_blocks cfg_256 ops_accept 2 TILFMT_8BIT 4096 8 4096 0 0 world_0
     \<noteq> Some (Inr world_0) \<and>
   reserve_blocks cfg_256 ops_accept 2 3 4096 8 4096 0 0 world_0 = Some (Inr world_0)"
proof -
  have a: "reserve_nv12 cfg_256 ops_accept 1 2048 8 2048 128 0 True 0 0 [] world_0
      \<noteq> Some (Inr world_0)"
    using reserve_validation[where c = cfg_256 and ops = ops_accept and n = 1 and width = 2048
        and height = 8 and align = 2048 and offs = 128 and gid = 0 and can_together = True
        and ?area_s0.0 = 0 and ?area_t0.0 = 0 and ?packing0.0 = "[]" and wd = world_0]
    by (simp add: cfg_256_def)
  have b: "reserve_nv12 cfg_256 ops_accept 1 2048 8 2048 129 0 True 0 0 [] world_0
      = Some (Inr world_0)"
    using reserve_validation[where c = cfg_256 and ops = ops_accept and n = 1 and width = 2048
        and height = 8 and align = 2048 and offs = 129 and gid = 0 and can_together = True
        and ?area_s0.0 = 0 and ?area_t0.0 = 0 and ?packing0.0 = "[]" and wd = world_0]
    by (simp add: cfg_256_def)
  have c: "reserve_blocks cfg_256 ops_accept 2 TILFMT_8BIT 4096 8 4096 0 0 world_0
      \<noteq> Some (Inr world_0)"
    using reserve_validation[where c = cfg_256 and ops = ops_accept and n = 2 and width = 4096
        and height = 8 and align = 4096 and offs = 0 and gid = 0 and wd = world_0
        and fmt = TILFMT_8BIT]
    by (simp add: cfg_256_def TILFMT_8BIT_def TILFMT_32BIT_def)
  have d: "reserve_blocks cfg_256 ops_accept 2 3 4096 8 4096 0 0 world_0 = Some (Inr world_0)"
    using reserve_validation[where c = cfg_256 and ops = ops_accept and n = 2 and width = 4096
        and height = 8 and align = 4096 and offs = 0 and gid = 0 and wd = world_0
        and fmt = 3]
    by (simp add: cfg_256_def TILFMT_8BIT_def TILFMT_32BIT_def)
  from a b c d show ?thesis by simp
qed

subsection \<open>Claim C8: the retry of \<open>reserve_blocks\<close>\<close>

text \<open>
  The inner loop "while (n_try > 1)" makes one call of \<open>lay_2d\<close> at most: the result
  is stored into the \<open>u32\<close> \<open>res\<close>, the test "if (res >= 0) break" holds for every
  value of a \<open>u32\<close>, and the statement "n_try--" after it is never reached.
\<close>

lemma blocks_retry_once:
  "1 < n_try \<Longrightarrow>
   blocks_retry ops fmt w h band a o' n_try res wd =
     (case lay_2d_group ops fmt n_try w h band a o' wd of (r, wd1) \<Rightarrow> (u32 r, wd1))"
  by (subst blocks_retry.simps) (simp add: u32_nonneg split: prod.splits)

lemma blocks_retry_skip:
  "\<not> 1 < n_try \<Longrightarrow> blocks_retry ops fmt w h band a o' n_try res wd = (res, wd)"
  by (subst blocks_retry.simps) simp

text \<open>
  Claim C8 says that \<open>reserve_blocks\<close>, when the allocator rejects a commit of
  \<open>n_try\<close> blocks, decrements the count by one and retries with the same area
  parameters, so that a count which the allocator would accept is committed. The
  source means to do so ("reduce n if failed to allocate area", \<open>n_try--\<close>), but it
  declares \<open>res\<close> as \<open>u32\<close>, where \<open>reserve_nv12\<close> has an \<open>int\<close>: a negative result
  of \<open>lay_2d\<close> passes the test "if (res >= 0) break" as a large unsigned value. With
  an allocator that has room for two blocks in an area, a request for three blocks
  of 66 slots makes a single call of \<open>lay_2d\<close>, for three blocks, which fails; no
  call for two blocks follows, nothing is committed, and the failed result, added to
  \<open>i\<close>, ends the outer loop as well.
\<close>

theorem reserve_blocks_never_retries:
  "reserve_blocks cfg_256 ops_two 3 TILFMT_8BIT 4224 512 128 0 0 world_0 =
     Some (Inr \<lparr>alloc = 1, reserved = [], gi_reserved = [], released = [],
                trace = [E_geom 0, E_analize 0 4224 512, E_get_gi 0, E_lay_2d 0 3 66 8 64 2 0,
                         E_release_gi]\<rparr>) \<and>
   lay_2d ops_two 0 TILFMT_8BIT 3 66 8 64 2 0 = (- 12, [], 1) \<and>
   lay_2d ops_two 1 TILFMT_8BIT 2 66 8 64 2 0 = (2, [1], 2)"
  by (simp add: reserve_blocks_def cfg_256_def ops_two_def sample_ops_def world_0_def
      TILFMT_8BIT_def TILFMT_16BIT_def TILFMT_32BIT_def u32_def u16_def s32_id c_div_nonneg
      ALIGN_def logged_def blocks_loop.simps tiler_best2pack_def best2pack_loop.simps
      blocks_retry.simps lay_2d_group_def Let_def)

text \<open>
  The inner loop is also guarded by \<open>n_try > 1\<close>, so a single block is never
  attempted. With an allocator that accepts one block and nothing more, a request for
  two blocks makes one call of \<open>lay_2d\<close>, for two blocks, and commits nothing.
\<close>

lemma reserve_blocks_single_block:
  "reserve_blocks cfg_256 ops_single 2 TILFMT_8BIT 4096 8 2048 0 0 world_0 =
     Some (Inr \<lparr>alloc = 1, reserved = [], gi_reserved = [], released = [],
                trace = [E_geom 0, E_analize 0 4096 8, E_get_gi 0, E_lay_2d 0 2 32 8 64 32 0,
                         E_release_gi]\<rparr>) \<and>
   fst (lay_2d ops_single 1 TILFMT_8BIT 1 32 8 64 32 0) = 1"
  by (simp add: reserve_blocks_def cfg_256_def ops_single_def sample_ops_def world_0_def
      TILFMT_8BIT_def TILFMT_16BIT_def TILFMT_32BIT_def u32_def u16_def s32_id c_div_nonneg
      ALIGN_def logged_def blocks_loop.simps tiler_best2pack_def best2pack_loop.simps
      blocks_retry.simps lay_2d_group_def Let_def)

lemma commit_events_set:
  "commit_events fmt w h band a o' t \<Longrightarrow> E_lay_2d f k w' h' band' a' o'' \<in> set t \<Longrightarrow>
   2 \<le> k \<and> f = fmt \<and> w' = w \<and> h' = h \<and> band' = band \<and> a' = a \<and> o'' = o'"
  unfolding commit_events_def list_all_iff by auto

lemma commit_events_no_release:
  "commit_events fmt w h band a o' t \<Longrightarrow> E_release l \<notin> set t"
  unfolding commit_events_def list_all_iff by auto

text \<open>
  What \<open>reserve_blocks\<close> does keep of the claim: every commit that it attempts is a
  \<open>lay_2d\<close> for at least two blocks, in the requested format and with the area
  parameters \<open>w\<close>, \<open>h\<close>, \<open>band\<close>, \<open>a\<close>, \<open>o\<close> that \<open>analize\<close> has returned, the same
  for every attempt, and it never calls \<open>release\<close>: the group's list is only
  extended, so the areas committed in earlier iterations stay in it.
\<close>

lemma reserve_blocks_commits:
  assumes "reserve_blocks c ops n fmt width height align offs gid wd = Some (Inr wd')"
  shows "prefix (gi_reserved wd) (gi_reserved wd') \<and> released wd' = released wd \<and>
         reserved wd' = reserved wd \<and>
         (\<exists>t. trace wd' = trace wd @ t \<and>
              (\<forall>f k w h band a o'. E_lay_2d f k w h band a o' \<in> set t \<longrightarrow>
                 2 \<le> k \<and> f = fmt \<and>
                 analize ops fmt width height (u16 align) (u16 offs) = Some (w, h, band, a, o')) \<and>
              (\<forall>l. E_release l \<notin> set t))"
proof -
  let ?bad = "width = 0 \<or> height = 0 \<or> n = 0 \<or> align > PAGE_SIZE c \<or> offs \<ge> align \<or>
      fmt < TILFMT_8BIT \<or> fmt > TILFMT_32BIT"
  let ?wd0 = "logged (E_geom fmt) wd"
  let ?wd1 = "logged (E_analize fmt width height) ?wd0"
  let ?wd2 = "logged (E_get_gi gid) ?wd1"
  let ?G = "\<lambda>t. (\<forall>f k w h band a o'. E_lay_2d f k w h band a o' \<in> set t \<longrightarrow>
                 2 \<le> k \<and> f = fmt \<and>
                 analize ops fmt width height (u16 align) (u16 offs) = Some (w, h, band, a, o')) \<and>
              (\<forall>l. E_release l \<notin> set t)"
  have easy: "wd' = wd \<or> wd' = ?wd0 \<or> wd' = ?wd1 \<or> wd' = ?wd2 \<Longrightarrow> ?thesis"
  proof -
    assume "wd' = wd \<or> wd' = ?wd0 \<or> wd' = ?wd1 \<or> wd' = ?wd2"
    then consider "wd' = wd" | "wd' = ?wd0" | "wd' = ?wd1" | "wd' = ?wd2" by blast
    then show ?thesis
    proof cases
      case 1 then show ?thesis by simp
    next
      case 2
      then have "trace wd' = trace wd @ [E_geom fmt] \<and> ?G [E_geom fmt]"
        by (simp add: logged_def)
      with 2 show ?thesis by (auto simp: logged_def)
    next
      case 3
      then have "trace wd' = trace wd @ [E_geom fmt, E_analize fmt width height] \<and>
          ?G [E_geom fmt, E_analize fmt width height]"
        by (simp add: logged_def)
      with 3 show ?thesis by (auto simp: logged_def)
    next
      case 4
      then have "trace wd' = trace wd @ [E_geom fmt, E_analize fmt width height, E_get_gi gid] \<and>
          ?G [E_geom fmt, E_analize fmt width height, E_get_gi gid]"
        by (simp add: logged_def)
      with 4 show ?thesis by (auto simp: logged_def)
    qed
  qed
  show ?thesis
  proof (cases ?bad)
    case True
    with assms have "wd' = wd" by (simp add: reserve_blocks_def)
    with easy show ?thesis by blast
  next
    case False
    obtain slot_w bpp where g: "geom ops fmt = (slot_w, bpp)" by (cases "geom ops fmt") auto
    show ?thesis
    proof (cases "u32 (width * bpp * 2) \<le> PAGE_SIZE c")
      case True
      with assms False g have "wd' = ?wd0" by (simp add: reserve_blocks_def)
      with easy show ?thesis by blast
    next
      case big: False
      show ?thesis
      proof (cases "analize ops fmt width height (u16 align) (u16 offs)")
        case None
        with assms False g big have "wd' = ?wd1" by (simp add: reserve_blocks_def)
        with easy show ?thesis by blast
      next
        case (Some sl)
        obtain w h band a' o' where sl: "sl = (w, h, band, a', o')" by (cases sl) auto
        show ?thesis
        proof (cases "get_gi ops gid")
          case f: False
          with assms False g big Some sl have "wd' = ?wd2" by (simp add: reserve_blocks_def)
          with easy show ?thesis by blast
        next
          case t: True
          with assms False g big Some sl obtain wd3 where
            lp: "blocks_loop c ops n fmt offs w h band a' o' (u16 (ALIGN w a')) 0 0 ?wd2
                  = Some (Inr wd3)"
            and e: "wd' = logged E_release_gi wd3"
            by (auto simp: reserve_blocks_def split: option.splits sum.splits)
          from blocks_loop_commits[OF lp] obtain t where
            t: "trace wd3 = trace ?wd2 @ t" "commit_events fmt w h band a' o' t"
            and p: "prefix (gi_reserved ?wd2) (gi_reserved wd3)"
            and r: "released wd3 = released ?wd2" "reserved wd3 = reserved ?wd2"
            unfolding commits_only_def by blast
          let ?t = "[E_geom fmt, E_analize fmt width height, E_get_gi gid] @ t @ [E_release_gi]"
          from t(1) e have tr: "trace wd' = trace wd @ ?t" by (simp add: logged_def)
          have G: "?G ?t"
            using commit_events_set[OF t(2)] commit_events_no_release[OF t(2)] Some sl
            by auto
          from p r e have "prefix (gi_reserved wd) (gi_reserved wd') \<and> released wd' = released wd \<and>
              reserved wd' = reserved wd" by (simp add: logged_def)
          with tr G show ?thesis by blast
        qed
      qed
    qed
  qed
qed

lemma reserve_blocks_commits_example:
  "reserve_blocks cfg_256 ops_accept 2 TILFMT_8BIT 4096 8 2048 0 0 world_0 =
     Some (Inr \<lparr>alloc = 1, reserved = [], gi_reserved = [0], released = [],
                trace = [E_geom 0, E_analize 0 4096 8, E_get_gi 0, E_lay_2d 0 2 32 8 64 32 2,
                         E_release_gi]\<rparr>)"
  by (simp add: reserve_blocks_def cfg_256_def ops_accept_def sample_ops_def world_0_def
      TILFMT_8BIT_def TILFMT_16BIT_def TILFMT_32BIT_def u32_def u16_def s32_id c_div_nonneg
      ALIGN_def logged_def blocks_loop.simps tiler_best2pack_def best2pack_loop.simps
      blocks_retry.simps lay_2d_group_def Let_def)

subsection \<open>Claim C7: termination\<close>

text \<open>
  The loops of \<open>reserve_nv12\<close> and \<open>reserve_blocks\<close> have no test for an attempt
  that commits zero blocks: it leaves \<open>i\<close> as it was, and the next iteration starts
  from the same values. With an allocator that reports zero blocks for every request,
  neither function returns.
\<close>

lemma reserve_separately_zero:
  "\<exists>wd1. reserve_separately ops_zero n_s w h band a o' wd = (0, wd1)"
  by (simp add: reserve_separately_def lay_2d_local_def ops_zero_def sample_ops_def)

lemma nv12_separate_sample:
  "\<exists>r. nv12_separate cfg_256 0 32 32 1 area = Inr r"
  by (simp add: nv12_separate_def tiler_best2pack_def cfg_256_def best2pack_loop.simps u16_def
      u32_def s32_id c_div_nonneg ALIGN_def Let_def)

lemma nv12_loop_zero_aux:
  assumes "nv12_loop c0 ops0 n0 w0 h0 band0 a0 o0 ct0 i0 res0 area_s0 area_t0 packing0 wd0 = Some y0"
  shows "\<not> (c0 = cfg_256 \<and> ops0 = ops_zero \<and> n0 = 1 \<and> w0 = 32 \<and> a0 = 32 \<and> o0 = 0 \<and>
            \<not> ct0 \<and> i0 = 0 \<and> res0 = 0)"
proof (rule nv12_loop.raw_induct[where P = "\<lambda>c ops n w h band a o' ct i res area_s area_t packing wd y.
             \<not> (c = cfg_256 \<and> ops = ops_zero \<and> n = 1 \<and> w = 32 \<and> a = 32 \<and> o' = 0 \<and>
                \<not> ct \<and> i = 0 \<and> res = 0)", OF _ assms], goal_cases)
  case (1 loop c ops n w h band a o' ct i res area_s area_t packing wd y)
  show ?case
  proof
    assume st: "c = cfg_256 \<and> ops = ops_zero \<and> n = 1 \<and> w = 32 \<and> a = 32 \<and> o' = 0 \<and>
                \<not> ct \<and> i = 0 \<and> res = 0"
    have k: "u16 (u32 (1 - 0)) = 1" by (simp add: u16_def u32_def)
    from nv12_separate_sample obtain n_s area_s1 where
      sep: "nv12_separate cfg_256 0 32 32 1 area_s = Inr (n_s, area_s1)" by (metis prod.collapse)
    from reserve_separately_zero obtain wd1 where
      rs: "reserve_separately ops_zero n_s 32 h band 32 0 wd = (0, wd1)" by blast
    from 1(2) st k sep rs
    have "loop c ops n w h band a o' ct 0 0 area_s1 area_t packing wd1 = Some y"
      by (simp add: plan_together_def separately_first_def u32_def u16_def)
    from 1(1)[OF this] st show False by simp
  qed
qed

lemma b2p_sample_3:
  "tiler_best2pack cfg_256 (u16 0) 66 66 64 (u16 (min (u32 (3 - 0)) (ops_width cfg_256))) 0
     = Inr (792, 3, 256)"
  by (simp add: tiler_best2pack_def cfg_256_def best2pack_loop.simps u16_def u32_def s32_id
      c_div_nonneg ALIGN_def Let_def)

lemma b2p_sample_2:
  "tiler_best2pack cfg_256 (u16 0) 66 66 64 (u16 (min (u32 (3 - 1)) (ops_width cfg_256))) 0
     = Inr (704, 2, 192)"
  by (simp add: tiler_best2pack_def cfg_256_def best2pack_loop.simps u16_def u32_def s32_id
      c_div_nonneg ALIGN_def Let_def)

lemma b2p_sample_1:
  "tiler_best2pack cfg_256 (u16 0) 66 66 64 (u16 (min (u32 (3 - 2)) (ops_width cfg_256))) 0
     = Inr (528, 1, 128)"
  by (simp add: tiler_best2pack_def cfg_256_def best2pack_loop.simps u16_def u32_def s32_id
      c_div_nonneg ALIGN_def Let_def)

lemma b2p_sample_0:
  "tiler_best2pack cfg_256 (u16 0) 32 32 64 (u16 (min (u32 (2 - 0)) (ops_width cfg_256))) 0
     = Inr (1024, 2, 64)"
  by (simp add: tiler_best2pack_def cfg_256_def best2pack_loop.simps u16_def u32_def s32_id
      c_div_nonneg ALIGN_def Let_def)

lemma blocks_retry_zero:
  "\<exists>wd1. blocks_retry ops_zero fmt w h band a o' 2 res wd = (0, wd1)"
  by (simp add: blocks_retry_once lay_2d_group_def ops_zero_def sample_ops_def u32_def)

lemma blocks_loop_zero_aux:
  assumes "blocks_loop c0 ops0 n0 fmt0 offs0 w0 h0 band0 a0 o0 e0 i0 res0 wd0 = Some y0"
  shows "\<not> (c0 = cfg_256 \<and> ops0 = ops_zero \<and> n0 = 2 \<and> offs0 = 0 \<and> w0 = 32 \<and> e0 = 32 \<and> band0 = 64 \<and>
            i0 = 0 \<and> res0 = 0)"
proof (rule blocks_loop.raw_induct[where P = "\<lambda>c ops n fmt offs w h band a o' e i res wd y.
      \<not> (c = cfg_256 \<and> ops = ops_zero \<and> n = 2 \<and> offs = 0 \<and> w = 32 \<and> e = 32 \<and> band = 64 \<and>
            i = 0 \<and> res = 0)", OF _ assms], goal_cases)
  case (1 loop c ops n fmt offs w h band a o' e i res wd y)
  show ?case
  proof
    assume st: "c = cfg_256 \<and> ops = ops_zero \<and> n = 2 \<and> offs = 0 \<and> w = 32 \<and> e = 32 \<and> band = 64 \<and>
            i = 0 \<and> res = 0"
    from blocks_retry_zero obtain wd1 where
      r: "blocks_retry ops_zero fmt 32 h 64 a o' 2 (u32 (- 1)) wd = (0, wd1)" by blast
    from 1(2) st b2p_sample_0 r have "loop c ops n fmt offs w h band a o' e 0 0 wd1 = Some y"
      by (simp add: u32_def)
    from 1(1)[OF this] st show False by simp
  qed
qed

lemma reserve_zero_progress:
  "reserve_nv12 cfg_256 ops_zero 1 2048 8 2048 0 0 False 0 0 [] world_0 = None \<and>
   reserve_blocks cfg_256 ops_zero 2 TILFMT_8BIT 4096 8 2048 0 0 world_0 = None"
proof
  have "nv12_loop cfg_256 ops_zero 1 32 8 64 32 0 False 0 0 0 0 [] wd = None" for wd
    using nv12_loop_zero_aux[of cfg_256 ops_zero 1 32 8 64 32 0 False 0 0 0 0 "[]" wd]
    by (cases "nv12_loop cfg_256 ops_zero 1 32 8 64 32 0 False 0 0 0 0 [] wd") auto
  then show "reserve_nv12 cfg_256 ops_zero 1 2048 8 2048 0 0 False 0 0 [] world_0 = None"
    by (simp add: reserve_nv12_def cfg_256_def ops_zero_def sample_ops_def)
next
  have "blocks_loop cfg_256 ops_zero 2 TILFMT_8BIT 0 32 8 64 32 0 32 0 0 wd = None" for wd
    using blocks_loop_zero_aux[of cfg_256 ops_zero 2 TILFMT_8BIT 0 32 8 64 32 0 32 0 0 wd]
    by (cases "blocks_loop cfg_256 ops_zero 2 TILFMT_8BIT 0 32 8 64 32 0 32 0 0 wd") auto
  then show "reserve_blocks cfg_256 ops_zero 2 TILFMT_8BIT 4096 8 2048 0 0 world_0 = None"
    by (simp add: reserve_blocks_def cfg_256_def ops_zero_def sample_ops_def
        TILFMT_8BIT_def TILFMT_32BIT_def u32_def u16_def ALIGN_def)
qed

text \<open>
  The allocator \<open>ops_one\<close> commits one block of every request. In \<open>reserve_blocks\<close>,
  for three blocks of 66 slots: from \<open>i = 0\<close> three blocks are attempted and from
  \<open>i = 1\<close> two, and one is committed each time; from \<open>i = 2\<close> one block is left, the
  inner loop is not entered, \<open>res\<close> keeps the \<open>- 1\<close> stored into it as a \<open>u32\<close>, and
  "i += res" takes \<open>i\<close> back to 1, while "res >= 0" holds as before.
\<close>

lemma blocks_retry_one:
  "1 < k \<Longrightarrow> \<exists>wd1. blocks_retry ops_one fmt w h band a o' k res wd = (1, wd1)"
  by (simp add: blocks_retry_once lay_2d_group_def ops_one_def sample_ops_def u32_def)

lemma blocks_loop_one_aux:
  assumes "blocks_loop c0 ops0 n0 fmt0 offs0 w0 h0 band0 a0 o0 e0 i0 res0 wd0 = Some y0"
  shows "\<not> (c0 = cfg_256 \<and> ops0 = ops_one \<and> n0 = 3 \<and> offs0 = 0 \<and> w0 = 66 \<and> e0 = 66 \<and> band0 = 64 \<and>
            (i0 = 0 \<or> i0 = 1 \<or> i0 = 2) \<and> 0 \<le> res0)"
proof (rule blocks_loop.raw_induct[where P = "\<lambda>c ops n fmt offs w h band a o' e i res wd y.
      \<not> (c = cfg_256 \<and> ops = ops_one \<and> n = 3 \<and> offs = 0 \<and> w = 66 \<and> e = 66 \<and> band = 64 \<and>
            (i = 0 \<or> i = 1 \<or> i = 2) \<and> 0 \<le> res)", OF _ assms], goal_cases)
  case (1 loop c ops n fmt offs w h band a o' e i res wd y)
  note IH = 1(1) and body = 1(2)
  show ?case
  proof
    assume st: "c = cfg_256 \<and> ops = ops_one \<and> n = 3 \<and> offs = 0 \<and> w = 66 \<and> e = 66 \<and> band = 64 \<and>
            (i = 0 \<or> i = 1 \<or> i = 2) \<and> 0 \<le> res"
    have "\<exists>wd3. blocks_retry ops_one fmt 66 h 64 a o' 3 (u32 (- 1)) wd = (1, wd3)"
      by (rule blocks_retry_one) simp
    then obtain wd3 where
      r3: "blocks_retry ops_one fmt 66 h 64 a o' 3 (u32 (- 1)) wd = (1, wd3)" by blast
    have "\<exists>wd1. blocks_retry ops_one fmt 66 h 64 a o' 2 (u32 (- 1)) wd = (1, wd1)"
      by (rule blocks_retry_one) simp
    then obtain wd1 where
      r2: "blocks_retry ops_one fmt 66 h 64 a o' 2 (u32 (- 1)) wd = (1, wd1)" by blast
    have r1: "blocks_retry ops_one fmt 66 h 64 a o' 1 (u32 (- 1)) wd = (u32 (- 1), wd)"
      by (simp add: blocks_retry_skip)
    from st consider "i = 0" | "i = 1" | "i = 2" by blast
    then show False
    proof cases
      case 1
      with body st b2p_sample_3 r3
      have "loop c ops n fmt offs w h band a o' e 1 1 wd3 = Some y"
        by (simp add: u32_def)
      from IH[OF this] st show False by simp
    next
      case 2
      with body st b2p_sample_2 r2
      have "loop c ops n fmt offs w h band a o' e 2 1 wd1 = Some y"
        by (simp add: u32_def)
      from IH[OF this] st show False by simp
    next
      case 3
      with body st b2p_sample_1 r1
      have "loop c ops n fmt offs w h band a o' e 1 4294967295 wd = Some y"
        by (simp add: u32_def)
      from IH[OF this] st show False by simp
    qed
  qed
qed

text \<open>
  Claim C7 says that every call of \<open>reserve_nv12\<close> and of \<open>reserve_blocks\<close>
  terminates, whatever the allocator does, and that the loop stops when an attempt
  fails or makes no progress. \<open>reserve_nv12\<close> stops at a failed attempt: its \<open>res\<close>
  is an \<open>int\<close>, and the loop runs while "res >= 0". \<open>reserve_blocks\<close> has the same
  loop header, but declares \<open>res\<close> as \<open>u32\<close>: "res >= 0" always holds, and the
  \<open>- 1\<close> of an iteration without a commit is added to \<open>i\<close> as \<open>2^32 - 1\<close>, which
  steps \<open>i\<close> back by one. With the allocator \<open>ops_one\<close>, every commit of which
  reports progress, a request for three blocks of 66 slots never returns from
  \<open>reserve_blocks\<close>, while \<open>reserve_nv12\<close> returns from the same request with three
  pairs reserved.
\<close>

theorem reserve_blocks_steps_back:
  "reserve_blocks cfg_256 ops_one 3 TILFMT_8BIT 4224 512 128 0 0 world_0 = None \<and>
   reports_progress ops_one \<and>
   map_option (map_sum id gi_reserved)
     (reserve_nv12 cfg_256 ops_one 3 4224 512 128 0 0 False 0 0 [] world_0)
     = Some (Inr [0, 1, 2, 3, 4, 5])"
proof (intro conjI)
  have "blocks_loop cfg_256 ops_one 3 TILFMT_8BIT 0 66 8 64 2 0 66 0 0 wd = None" for wd
    using blocks_loop_one_aux[of cfg_256 ops_one 3 TILFMT_8BIT 0 66 8 64 2 0 66 0 0 wd]
    by (cases "blocks_loop cfg_256 ops_one 3 TILFMT_8BIT 0 66 8 64 2 0 66 0 0 wd") auto
  then show "reserve_blocks cfg_256 ops_one 3 TILFMT_8BIT 4224 512 128 0 0 world_0 = None"
    by (simp add: reserve_blocks_def cfg_256_def ops_one_def sample_ops_def
        TILFMT_8BIT_def TILFMT_32BIT_def u32_def u16_def ALIGN_def)
next
  show "reports_progress ops_one"
    by (simp add: reports_progress_def ops_one_def sample_ops_def)
next
  show "map_option (map_sum id gi_reserved)
     (reserve_nv12 cfg_256 ops_one 3 4224 512 128 0 0 False 0 0 [] world_0)
     = Some (Inr [0, 1, 2, 3, 4, 5])"
    by (simp add: reserve_nv12_def cfg_256_def ops_one_def sample_ops_def world_0_def
        TILFMT_8BIT_def TILFMT_16BIT_def u32_def u16_def s32_id c_div_nonneg ALIGN_def logged_def
        nv12_loop.simps nv12_separate_def tiler_best2pack_def best2pack_loop.simps
        plan_together_def separately_first_def reserve_separately_def lay_2d_local_def
        add_reserved_local_def release_local_def Let_def)
qed

text \<open>The loops of the generators end on a request that \<open>slots_ok\<close> admits.\<close>

lemma nv12_A_inner_count:
  "nv12_A_inner o' w a area n u x l m p = (x1, l1, m1, p1) \<Longrightarrow>
   (m < m1 \<and> m1 \<le> n \<and> 0 \<le> x1) \<or> (m1 = m \<and> l1 = l \<and> x1 = x)"
proof (induction o' w a area n u x l m p rule: nv12_A_inner.induct)
  case (1 o' w a area n u x l m p)
  show ?case
  proof (cases "x + w \<le> u \<and> m < n")
    case False
    with "1.prems" show ?thesis by (simp add: nv12_A_inner.simps[of o' w a area n u x])
  next
    case True
    with "1.prems" have "nv12_A_inner o' w a area n u
             (u16 (ALIGN (x + w - o') a + o')) (u16 ((area + x + w + 1) div 2)) (m + 1)
             (p @ [u8 x, u8 l]) = (x1, l1, m1, p1)"
      by (simp add: nv12_A_inner.simps[of o' w a area n u x])
    from "1.IH"[OF True this] True show ?thesis
      by (auto simp: u16_nonneg)
  qed
qed

lemma nv12_A_outer_total:
  assumes a: "0 < a" and w: "1 \<le> w" and ar: "area + a \<le> 65536"
  shows "0 \<le> x \<Longrightarrow> \<exists>r. nv12_A_outer o' w a area n x m p = Some r"
proof (induction "(nat (n - m), nat (area - x))" arbitrary: x m p
    rule: wf_induct_rule[OF wf_lex_prod[OF wf_less_than wf_less_than]])
  case (1 x m p)
  show ?case
  proof (cases "x + w < area \<and> m < n")
    case False
    have "nv12_A_outer o' w a area n x m p = Some (m, p)"
      by (subst nv12_A_outer.simps) (simp only: False if_False simp_thms)
    then show ?thesis by blast
  next
    case True
    let ?u = "u16 ((area + x) div 2)"
    obtain x1 l1 m1 p1 where inner: "nv12_A_inner o' w a area n ?u x ?u m p = (x1, l1, m1, p1)"
      by (cases "nv12_A_inner o' w a area n ?u x ?u m p") auto
    let ?x' = "u16 (ALIGN (l1 - o') a + o')"
    have unf: "nv12_A_outer o' w a area n x m p = nv12_A_outer o' w a area n ?x' m1 p1"
      by (subst nv12_A_outer.simps) (simp only: True if_True simp_thms inner prod.case)
    have x'0: "0 \<le> ?x'" by (rule u16_nonneg)
    from nv12_A_inner_count[OF inner]
    have "((nat (n - m1), nat (area - ?x')), (nat (n - m), nat (area - x)))
        \<in> less_than <*lex*> less_than"
    proof
      assume "m < m1 \<and> m1 \<le> n \<and> 0 \<le> x1"
      then show ?thesis by auto
    next
      assume st: "m1 = m \<and> l1 = ?u \<and> x1 = x"
      from True "1.prems" w ar a have xa: "x + 2 \<le> area" "area < 65536" by auto
      with "1.prems" have u: "?u = (area + x) div 2" by (intro u16_id) auto
      from xa have ux: "x < (area + x) div 2" "(area + x) div 2 < area" by auto
      have ge: "?u - o' \<le> ALIGN (?u - o') a" by (rule ALIGN_ge[OF a])
      have lt: "ALIGN (?u - o') a < ?u - o' + a" by (rule ALIGN_lt[OF a])
      from ge lt u ux ar "1.prems" have "u16 (ALIGN (?u - o') a + o') = ALIGN (?u - o') a + o'"
        by (intro u16_id) auto
      with st ge u ux have "x < ?x'" by simp
      with st xa show ?thesis by auto
    qed
    from "1.hyps"[OF this x'0] unf show ?thesis by simp
  qed
qed

lemma nv12_D_loop_total:
  assumes a: "0 < a" and ow: "1 \<le> o' + w" and ar: "area + a \<le> 65536"
  shows "0 \<le> d \<Longrightarrow> \<exists>r. nv12_D_loop c o' w a area n d = Some r"
proof (induction "nat (area - d)" arbitrary: d rule: less_induct)
  case less
  show ?case
  proof (cases "n > 0 \<and> d + o' + w \<le> area")
    case False
    have "nv12_D_loop c o' w a area n d = Some (0, [])"
      by (subst nv12_D_loop.simps) (simp only: False if_False simp_thms)
    then show ?thesis by blast
  next
    case True
    with ow have dl: "d < area" by simp
    with less.prems a ar have "u16 (d + a) = d + a" by (intro u16_id) auto
    moreover from dl a have "nat (area - (d + a)) < nat (area - d)" by simp
    moreover from less.prems a have "0 \<le> d + a" by simp
    ultimately obtain r where r: "nv12_D_loop c o' w a area n (u16 (d + a)) = Some r"
      using less.hyps[of "d + a"] by auto
    let ?o1 = "u16 (((o' + d) mod band_8 c) div 2)"
    let ?w1 = "u16 ((w + 1) div 2)"
    let ?o2 = "u16 (?o1 + ALIGN (d + o' + w - ?o1) (band_16 c))"
    have unf: "nv12_D_loop c o' w a area n d =
       (if ?o1 + ?w1 \<le> o' + d then Some (1, [u8 (o' + d), u8 ?o1])
        else if ?o2 + ?w1 \<le> area then Some (1, [u8 o', u8 ?o2])
        else nv12_D_loop c o' w a area n (u16 (d + a)))"
      by (subst nv12_D_loop.simps) (simp only: True if_True simp_thms)
    show ?thesis
    proof (cases "?o1 + ?w1 \<le> o' + d")
      case t1: True
      with unf show ?thesis by (simp only: if_True) blast
    next
      case f1: False
      show ?thesis
      proof (cases "?o2 + ?w1 \<le> area")
        case t2: True
        with unf f1 show ?thesis by (simp only: if_True if_False) blast
      next
        case f2: False
        with unf f1 r show ?thesis by (simp only: if_False) blast
      qed
    qed
  qed
qed

lemma nv12_A_total:
  "slots_ok c w a o' \<Longrightarrow> 0 \<le> x \<Longrightarrow> \<exists>r. nv12_A c x w a n = Some r"
proof -
  assume s: "slots_ok c w a o'" and x: "0 \<le> x"
  then have b: "u16 (band_8 c) = band_8 c" unfolding slots_ok_def by (intro u16_id) auto
  from s have "0 < a" "1 \<le> w" "u16 (band_8 c) + a \<le> 65536" unfolding b slots_ok_def by auto
  from nv12_A_outer_total[OF this x, of x n 0 "[]"] show ?thesis
    by (auto simp: nv12_A_def)
qed

lemma nv12_revA_total:
  "slots_ok c w a o' \<Longrightarrow> \<exists>r. nv12_revA c o' w a n = Some r"
proof -
  assume s: "slots_ok c w a o'"
  from nv12_A_total[OF s u16_nonneg, of "(a - (o' + w) mod a) mod a" n]
  show ?thesis by (auto simp: nv12_revA_def)
qed

lemma nv12_D_total:
  "slots_ok c w a o' \<Longrightarrow> \<exists>r. nv12_D c o' w a n = Some r"
proof -
  assume s: "slots_ok c w a o'"
  then have b: "0 < band_8 c" and a: "0 < a" and ow: "1 \<le> o' + w"
    and sum: "o' + w + band_8 c + a \<le> 65536" unfolding slots_ok_def by auto
  let ?A = "ALIGN (o' + w) (band_8 c)"
  from ALIGN_ge[OF b, of "o' + w"] ALIGN_lt[OF b, of "o' + w"] ow sum a
  have "u16 ?A = ?A" by (intro u16_id) auto
  with ALIGN_lt[OF b, of "o' + w"] sum have "u16 ?A + a \<le> 65536" by simp
  from nv12_D_loop_total[OF a ow this, of 0 c n] show ?thesis
    by (auto simp: nv12_D_def)
qed

lemma try_generator_total:
  "(n_best s < n \<longrightarrow> (\<exists>r. result = Some r)) \<Longrightarrow> \<exists>s'. try_generator n g result s = Some s'"
  by (auto simp: try_generator_def)

lemma nv12_together_total:
  assumes s: "slots_ok c w a o'"
  shows "\<exists>r. nv12_together c o' w a n = Some r"
proof -
  from s have o: "0 \<le> o'" unfolding slots_ok_def by simp
  from nv12_A_total[OF s o] obtain nA area pA where A: "nv12_A c o' w a n = Some (nA, area, pA)"
    by (metis prod_cases3)
  let ?s0 = "\<lparr>n_best = u16 nA, sel_area = area, p_best = Some pA, p_src = PACK GEN_A,
                     called = [GEN_A]\<rparr>"
  from try_generator_total[of ?s0 n "nv12_revA c o' w a n" GEN_revA] nv12_revA_total[OF s]
  obtain s1 where s1: "try_generator n GEN_revA (nv12_revA c o' w a n) ?s0 = Some s1" by blast
  from try_generator_total[of s1 n "Some (nv12_B c o' w a n)" GEN_B]
  obtain s2 where s2: "try_generator n GEN_B (Some (nv12_B c o' w a n)) s1 = Some s2" by blast
  from try_generator_total[of s2 n "Some (nv12_C c o' w a n)" GEN_C]
  obtain s3 where s3: "try_generator n GEN_C (Some (nv12_C c o' w a n)) s2 = Some s3" by blast
  from A s1 s2 s3 have g: "try_generators c o' w a n = Some s3"
    by (simp add: try_generators_def)
  from nv12_D_total[OF s] obtain rD where "nv12_D c o' w a n = Some rD" by blast
  then obtain s5 where "try_D c o' w a n (special_packings o' w a n 0 s3) = Some s5"
    by (cases rD; cases "n_best (special_packings o' w a n 0 s3) = 0") (auto simp: try_D_def)
  with g show ?thesis by (simp add: nv12_together_def)
qed

lemma reserve_separately_res:
  assumes rp: "reports_progress ops"
    and r: "reserve_separately ops n_s w h band a o' wd = (res, wd')"
  shows "res < 0 \<or> (1 \<le> res \<and> res \<le> 65535)"
proof -
  obtain res8 wd1 where l8: "lay_2d_local ops TILFMT_8BIT n_s w h band a o' wd = (res8, wd1)"
    by (cases "lay_2d_local ops TILFMT_8BIT n_s w h band a o' wd") auto
  then have "res8 = fst (lay_2d ops (alloc wd) TILFMT_8BIT n_s w h band a o')"
    by (auto simp: lay_2d_local_def split: prod.splits)
  with rp have b: "res8 \<noteq> 0 \<and> res8 \<le> 65535" unfolding reports_progress_def by simp
  from r l8 have "res = - 1 \<or> res = res8"
    by (auto simp: reserve_separately_def split: prod.splits if_splits)
  with b show ?thesis by auto
qed

lemma lay_nv12_group_res:
  assumes rp: "reports_progress ops"
    and r: "lay_nv12_group ops k area w h p wd = (res, wd')"
  shows "res < 0 \<or> (1 \<le> res \<and> res \<le> 65535)"
proof -
  from r have "res = fst (lay_nv12 ops (alloc wd) k area w h p)"
    by (auto simp: lay_nv12_group_def split: prod.splits)
  with rp have "res \<noteq> 0 \<and> res \<le> 65535" unfolding reports_progress_def by simp
  then show ?thesis by auto
qed

lemma plan_together_total:
  "can_together \<longrightarrow> slots_ok c w a o' \<Longrightarrow>
   \<exists>r. plan_together c o' w a n can_together area_t packing = Some r"
  using nv12_together_total[of c w a o' n]
  by (auto simp: plan_together_def)

lemma nv12_loop_total:
  assumes rp: "reports_progress ops" and tg: "can_together \<longrightarrow> slots_ok c w a o'"
    and nb: "n + 65535 < 4294967296"
  shows "0 \<le> i \<Longrightarrow> i \<le> n + 65535 \<Longrightarrow>
    \<exists>r. nv12_loop c ops n w h band a o' can_together i res area_s area_t packing wd = Some r"
proof (induction "nat (n + 65536 - i)" arbitrary: i res area_s area_t packing wd rule: less_induct)
  case less
  show ?case
  proof (cases "u32 i < n \<and> 0 \<le> res")
    case False
    have "nv12_loop c ops n w h band a o' can_together i res area_s area_t packing wd
        = Some (Inr wd)"
      by (subst nv12_loop.simps) (simp only: False if_False simp_thms)
    then show ?thesis by blast
  next
    case True
    from less.prems nb have ui: "u32 i = i" by (simp add: u32_def)
    with True have iN: "i < n" by simp
    let ?k = "u16 (u32 (n - i))"
    show ?thesis
    proof (cases "nv12_separate c o' w a ?k area_s")
    case sepf: (Inl f)
    have "nv12_loop c ops n w h band a o' can_together i res area_s area_t packing wd
        = Some (Inl f)"
      by (subst nv12_loop.simps) (simp only: True if_True simp_thms sepf sum.case)
    then show ?thesis by blast
    next
    case sepr: (Inr r)
    obtain n_s area_s1 where r: "r = (n_s, area_s1)" by (cases r) auto
    note sep = sepr[unfolded r]
    from plan_together_total[OF tg] obtain n_t area_t1 packing1 where
      pt: "plan_together c o' w a ?k can_together area_t packing = Some (n_t, area_t1, packing1)"
      by (metis prod_cases3)
    show ?thesis
    proof (cases "separately_first can_together n_s n_t w area_s1 area_t1 ?k")
      case (Inl f)
      have "nv12_loop c ops n w h band a o' can_together i res area_s area_t packing wd
        = Some (Inl f)"
        by (subst nv12_loop.simps)
           (simp only: True if_True simp_thms sep prod.case pt option.case Inl sum.case)
      then show ?thesis by blast
    next
      case (Inr separately)
      obtain res1 wd1 where r1: "(if separately then reserve_separately ops n_s w h band a o' wd
                              else (- 1, wd)) = (res1, wd1)"
        by (cases "(if separately then reserve_separately ops n_s w h band a o' wd else (- 1, wd))")
           auto
      obtain res2 wd2 where r2: "(if res1 < 0 \<and> can_together \<and> n_t \<noteq> 0
                                   then lay_nv12_group ops n_t area_t1 w h packing1 wd1
                                   else (res1, wd1)) = (res2, wd2)"
        by (cases "(if res1 < 0 \<and> can_together \<and> n_t \<noteq> 0
                                   then lay_nv12_group ops n_t area_t1 w h packing1 wd1
                                   else (res1, wd1))") auto
      have unf: "nv12_loop c ops n w h band a o' can_together i res area_s area_t packing wd
        = nv12_loop c ops n w h band a o' can_together (i + res2) res2 area_s1 area_t1 packing1 wd2"
        by (subst nv12_loop.simps)
           (simp only: True if_True simp_thms sep prod.case pt option.case Inr sum.case r1 r2)
      from r1 have b1: "res1 < 0 \<or> (1 \<le> res1 \<and> res1 \<le> 65535)"
        using reserve_separately_res[OF rp] by (auto split: if_splits)
      from r2 b1 have b2: "res2 < 0 \<or> (1 \<le> res2 \<and> res2 \<le> 65535)"
        using lay_nv12_group_res[OF rp] by (auto split: if_splits)
      from b2 show ?thesis
      proof
        assume neg: "res2 < 0"
        then have nc: "\<not> (u32 (i + res2) < n \<and> 0 \<le> res2)" by simp
        have "nv12_loop c ops n w h band a o' can_together (i + res2) res2 area_s1 area_t1
            packing1 wd2 = Some (Inr wd2)"
          by (subst nv12_loop.simps) (simp only: nc if_False simp_thms)
        with unf show ?thesis by simp
      next
        assume pos: "1 \<le> res2 \<and> res2 \<le> 65535"
        with iN less.prems have "nat (n + 65536 - (i + res2)) < nat (n + 65536 - i)"
          "0 \<le> i + res2" "i + res2 \<le> n + 65535" by auto
        from less.hyps[OF this] unf show ?thesis by simp
      qed
    qed
    qed
  qed
qed

text \<open>
  The loop of \<open>reserve_nv12\<close>, for comparison. \<open>reserve_nv12\<close> comes to an end for
  every allocator that reports progress (a commit never reports zero blocks, and
  never more than 65535), provided that the container has fewer than \<open>2^32\<close> slots by
  a margin of two 16-bit counts and, where co-packing is allowed, that the normalised
  request is one on which the generators' loops advance (\<open>slots_ok\<close>): every
  iteration either ends the loop, its attempt having ended with a negative result, or
  advances \<open>i\<close> by the positive count committed. The end is a return, after which
  the group's list has only been extended, or the fault of a division.
\<close>

lemma reserve_nv12_ends:
  assumes rp: "reports_progress ops"
    and cap: "ops_width c * ops_height c div 2 + 65535 < 4294967296"
    and sl: "\<forall>w h band a o'. can_together \<and>
        analize ops TILFMT_8BIT width height
          (u16 (max (PAGE_SIZE c div min (band_8 c) (band_16 c)) (u16 align))) (u16 offs)
          = Some (w, h, band, a, o') \<longrightarrow> slots_ok c w a o'"
  shows "\<exists>r. reserve_nv12 c ops n width height align offs gid can_together area_s0 area_t0
            packing0 wd = Some r \<and>
          (\<forall>wd'. r = Inr wd' \<longrightarrow> prefix (gi_reserved wd) (gi_reserved wd'))"
proof -
  let ?bad = "width = 0 \<or> height = 0 \<or> n = 0 \<or> offs \<ge> align \<or> offs mod 2 = 1 \<or>
      align \<ge> PAGE_SIZE c \<or> n > ops_width c * ops_height c div 2"
  let ?wd1 = "logged (E_analize TILFMT_8BIT width height) wd"
  let ?wd2 = "logged (E_get_gi gid) ?wd1"
  let ?an = "analize ops TILFMT_8BIT width height
          (u16 (max (PAGE_SIZE c div min (band_8 c) (band_16 c)) (u16 align))) (u16 offs)"
  show ?thesis
  proof (cases ?bad)
    case True
    then show ?thesis by (simp add: reserve_nv12_def)
  next
    case False
    show ?thesis
    proof (cases ?an)
      case None
      with False show ?thesis by (simp add: reserve_nv12_def logged_def)
    next
      case (Some sl')
      obtain w h band a o' where sl': "sl' = (w, h, band, a, o')" by (cases sl') auto
      show ?thesis
      proof (cases "get_gi ops gid")
        case f: False
        with False Some sl' show ?thesis by (simp add: reserve_nv12_def logged_def)
      next
        case t: True
        from sl Some sl' have tg: "can_together \<longrightarrow> slots_ok c w a o'" by blast
        from False cap have nb: "n + 65535 < 4294967296" by simp
        have "\<exists>r. nv12_loop c ops n w h band a o' can_together 0 0 area_s0 area_t0
            packing0 ?wd2 = Some r"
        proof (cases "0 < n")
          case True
          then show ?thesis
            using nv12_loop_total[OF rp tg nb, of 0 h band 0 area_s0 area_t0 packing0 ?wd2]
            by simp
        next
          case False
          then have nc: "\<not> (u32 0 < n \<and> (0::int) \<le> 0)" by (simp add: u32_def)
          have "nv12_loop c ops n w h band a o' can_together 0 0 area_s0 area_t0
            packing0 ?wd2 = Some (Inr ?wd2)"
            by (subst nv12_loop.simps) (simp only: nc if_False simp_thms)
          then show ?thesis by blast
        qed
        then obtain r where lp: "nv12_loop c ops n w h band a o' can_together 0 0 area_s0 area_t0
            packing0 ?wd2 = Some r" by blast
        show ?thesis
        proof (cases r)
          case (Inl f)
          with lp False Some sl' t show ?thesis by (simp add: reserve_nv12_def)
        next
          case (Inr wd3)
          from nv12_loop_grows[OF lp[unfolded Inr]]
          have "prefix (gi_reserved wd) (gi_reserved wd3)"
            by (simp add: grows_def logged_def)
          with Inr lp False Some sl' t show ?thesis by (simp add: reserve_nv12_def logged_def)
        qed
      qed
    qed
  qed
qed

lemma reserve_nv12_ends_example:
  "reports_progress ops_sane \<and>
   ops_width cfg_256 * ops_height cfg_256 div 2 + 65535 < 4294967296 \<and>
   analize ops_sane TILFMT_8BIT 256 8
     (u16 (max (PAGE_SIZE cfg_256 div min (band_8 cfg_256) (band_16 cfg_256)) (u16 256))) (u16 128)
     = Some (4, 8, 64, 4, 2) \<and>
   slots_ok cfg_256 4 4 2 \<and>
   (\<exists>r. reserve_nv12 cfg_256 ops_sane 2 256 8 256 128 0 True 0 0 [] world_0 = Some r \<and>
        (\<forall>wd'. r = Inr wd' \<longrightarrow> prefix (gi_reserved world_0) (gi_reserved wd')))"
proof -
  have rp: "reports_progress ops_sane"
    by (simp add: reports_progress_def ops_sane_def sample_ops_def)
  have cap: "ops_width cfg_256 * ops_height cfg_256 div 2 + 65535 < 4294967296"
    by (simp add: cfg_256_def)
  have an: "analize ops_sane TILFMT_8BIT 256 8
     (u16 (max (PAGE_SIZE cfg_256 div min (band_8 cfg_256) (band_16 cfg_256)) (u16 256))) (u16 128)
     = Some (4, 8, 64, 4, 2)"
    by (simp add: ops_sane_def sample_ops_def)
  have ok: "slots_ok cfg_256 4 4 2" by (simp add: slots_ok_def cfg_256_def)
  have sl: "\<forall>w h band a o'. True \<and>
        analize ops_sane TILFMT_8BIT 256 8
          (u16 (max (PAGE_SIZE cfg_256 div min (band_8 cfg_256) (band_16 cfg_256)) (u16 256)))
          (u16 128) = Some (w, h, band, a, o') \<longrightarrow> slots_ok cfg_256 w a o'"
    using ok an by simp
  from reserve_nv12_ends[OF rp cap sl, of 2 0 0 0 "[]" world_0] rp cap an ok
  show ?thesis by simp
qed

end
